theory Spec2Isabelle
  imports Main "HOL-Library.Word" "HOL-Library.Sublist"
begin

section \<open>JavaScript strings and the built-ins the codec calls\<close>

text \<open>
  A JavaScript string is a sequence of UTF-16 code units. Indexing (\<open>s[0]\<close>),
  \<open>length\<close>, \<open>slice\<close>, \<open>substring\<close>, \<open>indexOf\<close> and \<open>charCodeAt\<close> count code
  units; only the string iterator behind \<open>Array.from\<close> walks code points.
\<close>

type_synonym code_unit = "16 word"
type_synonym jsstring = "code_unit list"

text \<open>A JavaScript number as far as the codec meets it: an integer, or \<open>None\<close> for NaN.\<close>

type_synonym jsnumber = "int option"

definition is_high_surrogate :: "code_unit \<Rightarrow> bool" where
  "is_high_surrogate c = (0xD800 \<le> c \<and> c \<le> 0xDBFF)"

definition is_low_surrogate :: "code_unit \<Rightarrow> bool" where
  "is_low_surrogate c = (0xDC00 \<le> c \<and> c \<le> 0xDFFF)"

text \<open>
  \<open>Array.from(text)\<close> uses the string iterator: a high surrogate directly followed by a
  low surrogate is one element of two code units, every other code unit (a lone surrogate
  included) is an element of its own.
\<close>

fun Array_from :: "jsstring \<Rightarrow> jsstring list" where
  "Array_from [] = []"
| "Array_from [c] = [[c]]"
| "Array_from (c # d # cs) =
     (if is_high_surrogate c \<and> is_low_surrogate d then [c, d] # Array_from cs
      else [c] # Array_from (d # cs))"

text \<open>\<open>s.charCodeAt(i)\<close>: the code unit at index \<open>i\<close>, NaN out of range.\<close>

definition charCodeAt :: "jsstring \<Rightarrow> nat \<Rightarrow> jsnumber" where
  "charCodeAt s i = (if i < length s then Some (uint (s ! i)) else None)"

text \<open>The digit characters \<open>0\<close> and \<open>1\<close>.\<close>

definition chr0 :: code_unit where
  "chr0 = 0x30"

definition chr1 :: code_unit where
  "chr1 = 0x31"

definition bit_char :: "bool \<Rightarrow> code_unit" where
  "bit_char b = (if b then chr1 else chr0)"

text \<open>
  \<open>n.toString(2)\<close> on a non-negative integer: its binary digits, most significant first,
  without leading zeros (\<open>"0"\<close> for zero).
\<close>

function binary_digits :: "nat \<Rightarrow> jsstring" where
  "binary_digits n =
     (if n < 2 then [bit_char (n = 1)]
      else binary_digits (n div 2) @ [bit_char (n mod 2 = 1)])"
  by pat_completeness auto
termination
  by (relation "measure id") auto

text \<open>\<open>x.toString(2)\<close>: \<open>"NaN"\<close> for NaN, a leading minus sign for a negative integer.\<close>

definition toString2 :: "jsnumber \<Rightarrow> jsstring" where
  "toString2 x =
     (case x of
        None \<Rightarrow> [0x4E, 0x61, 0x4E]
      | Some v \<Rightarrow> if v < 0 then 0x2D # binary_digits (nat (- v)) else binary_digits (nat v))"

text \<open>
  \<open>s.padStart(n, fill)\<close>: \<open>s\<close> itself when it is long enough or \<open>fill\<close> is empty,
  otherwise \<open>fill\<close> repeated and cut to the missing length, then \<open>s\<close>.
\<close>

definition padStart :: "jsstring \<Rightarrow> nat \<Rightarrow> jsstring \<Rightarrow> jsstring" where
  "padStart s n fill =
     (if n \<le> length s \<or> fill = [] then s
      else take (n - length s) (concat (replicate (n - length s) fill)) @ s)"

text \<open>\<open>parts.join('')\<close>.\<close>

definition join :: "jsstring list \<Rightarrow> jsstring" where
  "join parts = concat parts"

text \<open>\<open>s.slice(i, j)\<close> and \<open>s.slice(i)\<close> for the non-negative indices the code passes.\<close>

definition slice :: "jsstring \<Rightarrow> nat \<Rightarrow> nat \<Rightarrow> jsstring" where
  "slice s i j = drop i (take j s)"

definition slice_from :: "jsstring \<Rightarrow> nat \<Rightarrow> jsstring" where
  "slice_from s i = drop i s"

text \<open>
  \<open>s.substring(a, b)\<close>: both arguments are clamped to \<open>0 .. length\<close> and swapped when
  the first is the larger.
\<close>

definition substring :: "jsstring \<Rightarrow> int \<Rightarrow> int \<Rightarrow> jsstring" where
  "substring s a b =
     (let n = int (length s);
          a' = max 0 (min a n);
          b' = max 0 (min b n);
          lo = min a' b';
          hi = max a' b'
      in take (nat (hi - lo)) (drop (nat lo) s))"

text \<open>\<open>s.indexOf(needle)\<close>: the first index where \<open>needle\<close> starts, \<open>-1\<close> when there is none.\<close>

fun indexOf_from :: "jsstring \<Rightarrow> jsstring \<Rightarrow> int \<Rightarrow> int" where
  "indexOf_from [] needle i = (if needle = [] then i else - 1)"
| "indexOf_from (c # cs) needle i =
     (if prefix needle (c # cs) then i else indexOf_from cs needle (i + 1))"

definition indexOf :: "jsstring \<Rightarrow> jsstring \<Rightarrow> int" where
  "indexOf s needle = indexOf_from s needle 0"

text \<open>
  The characters \<open>parseInt\<close> skips at the start of its argument: ECMAScript's WhiteSpace
  (TAB, VT, FF, ZWNBSP and the Unicode space separators) and LineTerminator.
\<close>

definition is_StrWhiteSpaceChar :: "code_unit \<Rightarrow> bool" where
  "is_StrWhiteSpaceChar c =
     (c \<in> {0x09, 0x0A, 0x0B, 0x0C, 0x0D, 0x20, 0xA0, 0x1680, 0x2028, 0x2029,
            0x202F, 0x205F, 0x3000, 0xFEFF}
      \<or> (0x2000 \<le> c \<and> c \<le> 0x200A))"

definition is_binary_digit :: "code_unit \<Rightarrow> bool" where
  "is_binary_digit c = (c = chr0 \<or> c = chr1)"

definition digits_value :: "jsstring \<Rightarrow> int" where
  "digits_value ds = foldl (\<lambda>acc d. 2 * acc + (if d = chr1 then 1 else 0)) 0 ds"

text \<open>
  \<open>parseInt(s, 2)\<close>: leading white space is skipped, one sign is read, then the longest
  run of binary digits; NaN when that run is empty.
\<close>

definition parseInt2 :: "jsstring \<Rightarrow> jsnumber" where
  "parseInt2 s =
     (let s1 = dropWhile is_StrWhiteSpaceChar s;
          neg = (s1 \<noteq> [] \<and> hd s1 = 0x2D);
          s2 = (if s1 \<noteq> [] \<and> (hd s1 = 0x2B \<or> hd s1 = 0x2D) then tl s1 else s1);
          z = takeWhile is_binary_digit s2
      in if z = [] then None
         else Some (if neg then - digits_value z else digits_value z))"

text \<open>\<open>String.fromCharCode(x)\<close>: ToUint16 of the number (NaN is 0), as a one-unit string.\<close>

definition fromCharCode :: "jsnumber \<Rightarrow> jsstring" where
  "fromCharCode x = [word_of_int (case x of None \<Rightarrow> 0 | Some v \<Rightarrow> v)]"

section \<open>The bit codec\<close>

text \<open>
  \<^verbatim>\<open>
  const textToBinary = (text: string) => {
    return Array.from(text)
      .map(char => char.charCodeAt(0).toString(2).padStart(16, '0'))
      .join('');
  };
  \<close>
\<close>

definition textToBinary :: "jsstring \<Rightarrow> jsstring" where
  "textToBinary text =
     join (map (\<lambda>char. padStart (toString2 (charCodeAt char 0)) 16 [chr0]) (Array_from text))"

text \<open>
  \<^verbatim>\<open>
  const binaryToText = (binary: string) => {
    const chars = [];
    for (let i = 0; i < binary.length; i += 16) {
      const byte = binary.slice(i, i + 16);
      if (byte.length === 16) {
        chars.push(String.fromCharCode(parseInt(byte, 2)));
      }
    }
    return chars.join('');
  };
  \<close>
  The loop carries the index \<open>i\<close> and the array \<open>chars\<close>.
\<close>

function binaryToText_loop :: "jsstring \<Rightarrow> nat \<Rightarrow> jsstring list \<Rightarrow> jsstring list" where
  "binaryToText_loop binary i chars =
     (if i < length binary then
        (let byte = slice binary i (i + 16)
         in binaryToText_loop binary (i + 16)
              (if length byte = 16 then chars @ [fromCharCode (parseInt2 byte)] else chars))
      else chars)"
  by pat_completeness auto
termination
  by (relation "measure (\<lambda>(binary, i, chars). length binary - i)") auto

definition binaryToText :: "jsstring \<Rightarrow> jsstring" where
  "binaryToText binary = join (binaryToText_loop binary 0 [])"

section \<open>The application: markers, state, the library interface\<close>

text \<open>
  \<^verbatim>\<open>
  const ZW_ZERO = '\u200C';
  const ZW_ONE = '\u200D';
  const ZW_START = '\u2060'; // Word Joiner as start marker
  const ZW_END = '\uFEFF';   // Zero Width No-Break Space as end marker
  \<close>
\<close>

definition ZW_ZERO :: jsstring where
  "ZW_ZERO = [0x200C]"

definition ZW_ONE :: jsstring where
  "ZW_ONE = [0x200D]"

definition ZW_START :: jsstring where
  "ZW_START = [0x2060]"

definition ZW_END :: jsstring where
  "ZW_END = [0xFEFF]"

text \<open>
  The strings \<open>setError\<close> is called with, one constructor per literal of the source.
  \<open>NoMessage\<close> is the empty string (no error shown). In the order of the source:
  "enter the secret message", "enter the cover text", "enter a 4-digit PIN",
  "an error occurred while encrypting", "enter the text to analyse",
  "no complete or valid hidden message found", "the hidden message is empty",
  "wrong password, or the message was damaged in transit".
\<close>

datatype message =
    NoMessage
  | EnterSecret
  | EnterCover
  | InvalidKey
  | EncryptFailed
  | EnterInput
  | NotFound
  | EmptyPayload
  | WrongKeyOrCorrupt

text \<open>
  The component's state (\<open>useState\<close>) that the two handlers read and write. The tab
  and the clipboard flag are not touched by them and are left out.
\<close>

record app_state =
  secretMessage :: jsstring
  coverText :: jsstring
  encryptPin :: jsstring
  decryptPin :: jsstring
  inputText :: jsstring
  resultText :: jsstring
  error :: message

text \<open>
  \<open>declare const CryptoJS: any\<close>: the library is not part of the repository, so the
  three calls the handlers make are parameters. \<open>None\<close> is a thrown exception.
  \<^item> \<open>AES_encrypt r m p\<close> is \<open>CryptoJS.AES.encrypt(m, p).toString()\<close>; \<open>r\<close> stands for
    whatever the library draws besides its arguments (a random salt);
  \<^item> \<open>AES_decrypt e p\<close> is \<open>CryptoJS.AES.decrypt(e, p)\<close>, a word array \<open>'w\<close>;
  \<^item> \<open>Utf8_stringify w\<close> is \<open>w.toString(CryptoJS.enc.Utf8)\<close>.
\<close>

record ('r, 'w) cryptojs =
  AES_encrypt :: "'r \<Rightarrow> jsstring \<Rightarrow> jsstring \<Rightarrow> jsstring option"
  AES_decrypt :: "jsstring \<Rightarrow> jsstring \<Rightarrow> 'w option"
  Utf8_stringify :: "'w \<Rightarrow> jsstring option"

text \<open>\<open>/^\d+$/.test(s)\<close>: one or more characters, all of them ASCII digits.\<close>

definition is_digit :: "code_unit \<Rightarrow> bool" where
  "is_digit c = (0x30 \<le> c \<and> c \<le> 0x39)"

definition all_digits :: "jsstring \<Rightarrow> bool" where
  "all_digits s = (s \<noteq> [] \<and> list_all is_digit s)"

text \<open>\<open>pin.length !== 4 || !/^\d+$/.test(pin)\<close>, the test both handlers make.\<close>

definition pin_rejected :: "jsstring \<Rightarrow> bool" where
  "pin_rejected pin = (length pin \<noteq> 4 \<or> \<not> all_digits pin)"

section \<open>Hiding: \<open>handleEncrypt\<close>\<close>

text \<open>
  \<^verbatim>\<open>
  const hiddenChars = ZW_START + Array.from(binary)
    .map(bit => (bit === '0' ? ZW_ZERO : ZW_ONE))
    .join('') + ZW_END;
  \<close>
\<close>

definition hiddenChars :: "jsstring \<Rightarrow> jsstring" where
  "hiddenChars binary =
     ZW_START @ join (map (\<lambda>bit. if bit = [chr0] then ZW_ZERO else ZW_ONE) (Array_from binary))
       @ ZW_END"

text \<open>
  \<^verbatim>\<open>
  const result = coverText.length > 0
    ? coverText[0] + hiddenChars + coverText.slice(1)
    : hiddenChars;
  \<close>
  \<open>coverText[0]\<close> is read only where the string is not empty.
\<close>

definition interleave :: "jsstring \<Rightarrow> jsstring \<Rightarrow> jsstring" where
  "interleave cover hidden =
     (if length cover > 0 then [cover ! 0] @ hidden @ slice_from cover 1 else hidden)"

text \<open>
  The handler: three guards that only set the error, then the \<open>try\<close> block. \<open>setError('')\<close>
  comes first in the block; the \<open>catch\<close> replaces it when the library throws.
\<close>

definition handleEncrypt :: "('r, 'w) cryptojs \<Rightarrow> 'r \<Rightarrow> app_state \<Rightarrow> app_state" where
  "handleEncrypt cj r st =
     (if secretMessage st = [] then st\<lparr>error := EnterSecret\<rparr>
      else if coverText st = [] then st\<lparr>error := EnterCover\<rparr>
      else if pin_rejected (encryptPin st) then st\<lparr>error := InvalidKey\<rparr>
      else
        (case AES_encrypt cj r (secretMessage st) (encryptPin st) of
           None \<Rightarrow> st\<lparr>error := EncryptFailed\<rparr>
         | Some encrypted \<Rightarrow>
             (let binary = textToBinary encrypted;
                  result = interleave (coverText st) (hiddenChars binary)
              in st\<lparr>error := NoMessage, resultText := result\<rparr>)))"

section \<open>Revealing: \<open>handleDecrypt\<close>\<close>

text \<open>
  \<^verbatim>\<open>
  const zwContent = inputText.substring(startIdx + 1, endIdx);
  const binary = Array.from(zwContent)
    .filter(char => char === ZW_ZERO || char === ZW_ONE)
    .map(char => (char === ZW_ZERO ? '0' : '1'))
    .join('');
  \<close>
\<close>

definition extract_binary :: "jsstring \<Rightarrow> int \<Rightarrow> int \<Rightarrow> jsstring" where
  "extract_binary input startIdx endIdx =
     (let zwContent = substring input (startIdx + 1) endIdx
      in join (map (\<lambda>char. if char = ZW_ZERO then [chr0] else [chr1])
                (filter (\<lambda>char. char = ZW_ZERO \<or> char = ZW_ONE) (Array_from zwContent))))"

text \<open>
  The \<open>try\<close> block: \<open>None\<close> is its \<open>catch\<close> branch, entered when the library throws or
  when the recovered text is empty (\<open>throw new Error('Wrong PIN')\<close>).
  \<^verbatim>\<open>
  const encryptedText = binaryToText(binary);
  const bytes = CryptoJS.AES.decrypt(encryptedText, decryptPin);
  const originalText = bytes.toString(CryptoJS.enc.Utf8);
  if (!originalText) { throw new Error('Wrong PIN'); }
  \<close>
\<close>

definition decrypt_binary :: "('r, 'w) cryptojs \<Rightarrow> jsstring \<Rightarrow> jsstring \<Rightarrow> jsstring option" where
  "decrypt_binary cj binary pin =
     (let encryptedText = binaryToText binary
      in case AES_decrypt cj encryptedText pin of
           None \<Rightarrow> None
         | Some bytes \<Rightarrow>
             (case Utf8_stringify cj bytes of
                None \<Rightarrow> None
              | Some originalText \<Rightarrow> if originalText = [] then None else Some originalText))"

definition handleDecrypt :: "('r, 'w) cryptojs \<Rightarrow> app_state \<Rightarrow> app_state" where
  "handleDecrypt cj st =
     (if inputText st = [] then st\<lparr>error := EnterInput\<rparr>
      else if pin_rejected (decryptPin st) then st\<lparr>error := InvalidKey\<rparr>
      else
        (let startIdx = indexOf (inputText st) ZW_START;
             endIdx = indexOf (inputText st) ZW_END
         in if startIdx = - 1 \<or> endIdx = - 1 \<or> endIdx \<le> startIdx
            then st\<lparr>error := NotFound, resultText := []\<rparr>
            else
              (let binary = extract_binary (inputText st) startIdx endIdx
               in if length binary = 0 then st\<lparr>error := EmptyPayload\<rparr>
                  else
                    (case decrypt_binary cj binary (decryptPin st) of
                       None \<Rightarrow> st\<lparr>error := WrongKeyOrCorrupt, resultText := []\<rparr>
                     | Some originalText \<Rightarrow>
                         st\<lparr>error := NoMessage, resultText := originalText\<rparr>))))"

section \<open>The earlier revision: append and unmarked scan\<close>

text \<open>
  The repository also holds the revision before the sentinels were introduced. It uses two
  markers only, appends the marker run to the cover and collects every marker of the
  input. Its names carry the suffix \<open>_p0\<close> here.
  \<^verbatim>\<open>
  const ZW_ZERO = '\u200B';
  const ZW_ONE = '\u200C';
  \<close>
\<close>

definition ZW_ZERO_p0 :: jsstring where
  "ZW_ZERO_p0 = [0x200B]"

definition ZW_ONE_p0 :: jsstring where
  "ZW_ONE_p0 = [0x200C]"

text \<open>
  Its two messages that differ from the later revision's: "the hidden secret message was
  not found" and "wrong password, the message cannot be restored".
\<close>

datatype message_p0 =
    NoMessage_p0
  | EnterSecret_p0
  | EnterCover_p0
  | InvalidKey_p0
  | EncryptFailed_p0
  | EnterInput_p0
  | NotFound_p0
  | WrongKey_p0

record app_state_p0 =
  secretMessage_p0 :: jsstring
  coverText_p0 :: jsstring
  encryptPin_p0 :: jsstring
  decryptPin_p0 :: jsstring
  inputText_p0 :: jsstring
  resultText_p0 :: jsstring
  error_p0 :: message_p0

text \<open>
  \<^verbatim>\<open>
  const hiddenChars = Array.from(binary)
    .map(bit => (bit === '0' ? ZW_ZERO : ZW_ONE))
    .join('');
  setResultText(coverText + hiddenChars);
  \<close>
\<close>

definition hiddenChars_p0 :: "jsstring \<Rightarrow> jsstring" where
  "hiddenChars_p0 binary =
     join (map (\<lambda>bit. if bit = [chr0] then ZW_ZERO_p0 else ZW_ONE_p0) (Array_from binary))"

definition handleEncrypt_p0 ::
  "('r, 'w) cryptojs \<Rightarrow> 'r \<Rightarrow> app_state_p0 \<Rightarrow> app_state_p0" where
  "handleEncrypt_p0 cj r st =
     (if secretMessage_p0 st = [] then st\<lparr>error_p0 := EnterSecret_p0\<rparr>
      else if coverText_p0 st = [] then st\<lparr>error_p0 := EnterCover_p0\<rparr>
      else if pin_rejected (encryptPin_p0 st) then st\<lparr>error_p0 := InvalidKey_p0\<rparr>
      else
        (case AES_encrypt cj r (secretMessage_p0 st) (encryptPin_p0 st) of
           None \<Rightarrow> st\<lparr>error_p0 := EncryptFailed_p0\<rparr>
         | Some encrypted \<Rightarrow>
             (let binary = textToBinary encrypted;
                  hidden = hiddenChars_p0 binary
              in st\<lparr>error_p0 := NoMessage_p0, resultText_p0 := coverText_p0 st @ hidden\<rparr>)))"

text \<open>
  \<^verbatim>\<open>
  const regex = new RegExp(`[${ZW_ZERO}${ZW_ONE}]`, 'g');
  const matches = inputText.match(regex);
  \<close>
  Every code unit that is one of the two markers, in order, each as a one-unit string;
  \<open>None\<close> is the \<open>null\<close> that \<open>match\<close> returns when there is none.
\<close>

definition match_markers_p0 :: "jsstring \<Rightarrow> jsstring list option" where
  "match_markers_p0 input =
     (let found = map (\<lambda>c. [c]) (filter (\<lambda>c. [c] = ZW_ZERO_p0 \<or> [c] = ZW_ONE_p0) input)
      in if found = [] then None else Some found)"

definition handleDecrypt_p0 :: "('r, 'w) cryptojs \<Rightarrow> app_state_p0 \<Rightarrow> app_state_p0" where
  "handleDecrypt_p0 cj st =
     (if inputText_p0 st = [] then st\<lparr>error_p0 := EnterInput_p0\<rparr>
      else if pin_rejected (decryptPin_p0 st) then st\<lparr>error_p0 := InvalidKey_p0\<rparr>
      else
        (case match_markers_p0 (inputText_p0 st) of
           None \<Rightarrow> st\<lparr>error_p0 := NotFound_p0, resultText_p0 := []\<rparr>
         | Some matches \<Rightarrow>
             (let binary = join (map (\<lambda>char. if char = ZW_ZERO_p0 then [chr0] else [chr1]) matches)
              in case decrypt_binary cj binary (decryptPin_p0 st) of
                   None \<Rightarrow> st\<lparr>error_p0 := WrongKey_p0, resultText_p0 := []\<rparr>
                 | Some originalText \<Rightarrow>
                     st\<lparr>error_p0 := NoMessage_p0, resultText_p0 := originalText\<rparr>)))"

section \<open>Notions of the specification\<close>

text \<open>
  The definitions of this section are not code of the repository: they say, in terms of
  code units and without the JavaScript built-ins, what the specification's sentences
  mean, and the theorems compare the code with them.
\<close>

text \<open>The sixteen bits of a code unit, most significant first, as digit characters.\<close>

definition unit_bits :: "code_unit \<Rightarrow> jsstring" where
  "unit_bits c = map (\<lambda>i. bit_char (bit c i)) (rev [0..<16])"

text \<open>The code unit that sixteen digit characters denote, most significant first.\<close>

definition msb_first_unit :: "jsstring \<Rightarrow> code_unit" where
  "msb_first_unit u = (\<Sum>i<16. if u ! i = chr1 then 2 ^ (15 - i) else 0)"

text \<open>
  The complete groups of sixteen code units of a string, in order; what is left at the end
  and is shorter than sixteen belongs to no group.
\<close>

function groups16 :: "jsstring \<Rightarrow> jsstring list" where
  "groups16 xs = (if length xs < 16 then [] else take 16 xs # groups16 (drop 16 xs))"
  by pat_completeness auto
termination
  by (relation "measure length") auto

text \<open>Whether a high surrogate is directly followed by a low surrogate somewhere.\<close>

fun has_surrogate_pair :: "jsstring \<Rightarrow> bool" where
  "has_surrogate_pair (c # d # cs) =
     ((is_high_surrogate c \<and> is_low_surrogate d) \<or> has_surrogate_pair (d # cs))"
| "has_surrogate_pair cs = False"

text \<open>Removing the markers of the alphabet: four in the sentinel variant, two before.\<close>

definition strip_markers :: "jsstring \<Rightarrow> jsstring" where
  "strip_markers s = filter (\<lambda>c. c \<notin> {0x200C, 0x200D, 0x2060, 0xFEFF}) s"

definition strip_markers_p0 :: "jsstring \<Rightarrow> jsstring" where
  "strip_markers_p0 s = filter (\<lambda>c. c \<notin> {0x200B, 0x200C}) s"

text \<open>The position of the first occurrence of a code unit, the length when it is absent.\<close>

definition first_pos :: "code_unit \<Rightarrow> jsstring \<Rightarrow> nat" where
  "first_pos c s = length (takeWhile (\<lambda>x. x \<noteq> c) s)"

text \<open>The code units strictly between the first START-MARK and the first END-MARK.\<close>

definition between_sentinels :: "jsstring \<Rightarrow> jsstring" where
  "between_sentinels s =
     take (first_pos 0xFEFF s - first_pos 0x2060 s - 1) (drop (first_pos 0x2060 s + 1) s)"

text \<open>The bits of a run of code units: its ZERO-MARKs and ONE-MARKs as digit characters.\<close>

definition marker_bits :: "jsstring \<Rightarrow> jsstring" where
  "marker_bits s =
     map (\<lambda>c. if c = 0x200C then chr0 else chr1) (filter (\<lambda>c. c = 0x200C \<or> c = 0x200D) s)"

text \<open>
  Hiding and then revealing: the user runs \<open>handleEncrypt\<close>, pastes the result into the
  input field, types the same PIN and runs \<open>handleDecrypt\<close>.
\<close>

definition seal_then_open :: "('r, 'w) cryptojs \<Rightarrow> 'r \<Rightarrow> app_state \<Rightarrow> app_state" where
  "seal_then_open cj r st =
     (let st1 = handleEncrypt cj r st
      in handleDecrypt cj (st1\<lparr>inputText := resultText st1, decryptPin := encryptPin st\<rparr>))"

text \<open>
  A stand-in for the library, to run the handlers on concrete inputs: the envelope is the
  PIN followed by the message, and opening it fails unless it starts with the PIN given.
\<close>

definition demo_cryptojs :: "(unit, jsstring) cryptojs" where
  "demo_cryptojs =
     \<lparr>AES_encrypt = (\<lambda>r m p. Some (p @ m)),
      AES_decrypt = (\<lambda>e p. if prefix p e then Some (drop (length p) e) else None),
      Utf8_stringify = (\<lambda>w. Some w)\<rparr>"

text \<open>
  A second stand-in, whose envelope depends on the salt it draws: the salt, then the PIN,
  then the message.
\<close>

definition salted_cryptojs :: "(code_unit, jsstring) cryptojs" where
  "salted_cryptojs =
     \<lparr>AES_encrypt = (\<lambda>salt m p. Some (salt # p @ m)),
      AES_decrypt = (\<lambda>e p. if e \<noteq> [] \<and> prefix p (tl e) then Some (drop (length p) (tl e)) else None),
      Utf8_stringify = (\<lambda>w. Some w)\<rparr>"

section \<open>Facts about the built-ins and the bit codec\<close>

declare binary_digits.simps [simp del]
declare binaryToText_loop.simps [simp del]
declare groups16.simps [simp del]

lemma rev_upt_Suc: "rev [0..<Suc k] = map Suc (rev [0..<k]) @ [0]"
proof -
  have "[0..<Suc k] = 0 # map Suc [0..<k]"
    by (simp add: upt_conv_Cons map_Suc_upt del: upt_Suc)
  then show ?thesis
    by (simp add: rev_map del: upt_Suc)
qed

text \<open>
  Padding the digits of \<open>n\<close> to \<open>k\<close> places gives the bits \<open>k - 1\<close> down to \<open>0\<close> of \<open>n\<close>.
  When \<open>n\<close> already has \<open>k\<close> digits nothing is added.
\<close>

lemma binary_digits_padded:
  "n < 2 ^ k \<Longrightarrow> 0 < k \<Longrightarrow>
   replicate (k - length (binary_digits n)) chr0 @ binary_digits n =
   map (\<lambda>i. bit_char (bit n i)) (rev [0..<k])"
proof (induction n arbitrary: k rule: binary_digits.induct)
  case (1 n)
  obtain k' where k: "k = Suc k'"
    using \<open>0 < k\<close> by (cases k) auto
  show ?case
  proof (cases "n < 2")
    case True
    then have small: "n = 0 \<or> n = 1" by auto
    have hi: "bit n (Suc i) = False" for i
      using small by (auto simp: bit_Suc)
    have lo: "bit n 0 = (n = 1)"
      using small by (auto simp: bit_0)
    have "map (\<lambda>i. bit_char (bit n i)) (rev [0..<Suc k']) = replicate k' chr0 @ [bit_char (n = 1)]"
      unfolding rev_upt_Suc
      by (simp add: o_def hi lo bit_char_def map_replicate_const del: upt_Suc)
    moreover have "binary_digits n = [bit_char (n = 1)]"
      using True by (simp add: binary_digits.simps)
    ultimately show ?thesis
      by (simp add: k del: upt_Suc)
  next
    case False
    then have bd: "binary_digits n = binary_digits (n div 2) @ [bit_char (n mod 2 = 1)]"
      by (subst binary_digits.simps) simp
    from False \<open>n < 2 ^ k\<close> k have "0 < k'"
      by (cases k') auto
    moreover have "n div 2 < 2 ^ k'"
      using \<open>n < 2 ^ k\<close> k by (simp add: less_mult_imp_div_less mult.commute)
    ultimately have ih:
      "replicate (k' - length (binary_digits (n div 2))) chr0 @ binary_digits (n div 2) =
       map (\<lambda>i. bit_char (bit (n div 2) i)) (rev [0..<k'])"
      using "1.IH" [OF False] by blast
    have "map (\<lambda>i. bit_char (bit n i)) (rev [0..<Suc k']) =
          map (\<lambda>i. bit_char (bit (n div 2) i)) (rev [0..<k']) @ [bit_char (n mod 2 = 1)]"
      unfolding rev_upt_Suc
      by (simp add: o_def bit_Suc bit_0 odd_iff_mod_2_eq_one del: upt_Suc)
    then show ?thesis
      using ih by (simp add: k bd del: upt_Suc)
  qed
qed

lemma Array_from_nonempty: "e \<in> set (Array_from t) \<Longrightarrow> e \<noteq> []"
  by (induction t rule: Array_from.induct) (auto split: if_splits)


lemma Array_from_no_pair:
  "\<not> has_surrogate_pair t \<Longrightarrow> Array_from t = map (\<lambda>c. [c]) t"
  by (induction t rule: Array_from.induct) auto

lemma pad_unit_bits:
  "e \<noteq> [] \<Longrightarrow> padStart (toString2 (charCodeAt e 0)) 16 [chr0] = unit_bits (hd e)"
proof -
  assume "e \<noteq> []"
  then obtain c cs where e: "e = c # cs"
    by (cases e) auto
  have lt: "unat c < 2 ^ 16"
    using unsigned_less [of c] by simp
  have pad: "replicate (16 - length (binary_digits (unat c))) chr0 @ binary_digits (unat c) =
      map (\<lambda>i. bit_char (bit (unat c) i)) (rev [0..<16])"
    using binary_digits_padded [OF lt] by simp
  have bits: "map (\<lambda>i. bit_char (bit (unat c) i)) (rev [0..<16]) = unit_bits c"
    unfolding unit_bits_def by (rule map_cong) (simp_all add: bit_unsigned_iff)
  have len: "length (replicate (16 - length (binary_digits (unat c))) chr0 @ binary_digits (unat c)) = 16"
    by (simp only: pad length_map length_rev length_upt)
  have ts: "toString2 (charCodeAt (c # cs) 0) = binary_digits (unat c)"
    by (simp add: toString2_def charCodeAt_def)
  have fill: "concat (replicate n [chr0]) = replicate n chr0" for n
    by (induction n) auto
  have "padStart (binary_digits (unat c)) 16 [chr0] = unit_bits c"
  proof (cases "16 \<le> length (binary_digits (unat c))")
    case True
    then show ?thesis
      using pad bits by (simp add: padStart_def)
  next
    case False
    then show ?thesis
      using pad bits by (simp add: padStart_def fill)
  qed
  then show ?thesis
    unfolding e by (simp add: ts)
qed

lemma textToBinary_elements:
  "textToBinary t = concat (map (\<lambda>e. unit_bits (hd e)) (Array_from t))"
  unfolding textToBinary_def join_def
  by (rule arg_cong [where f = concat], rule map_cong) (auto simp: pad_unit_bits Array_from_nonempty)

lemma textToBinary_units:
  "\<not> has_surrogate_pair t \<Longrightarrow> textToBinary t = concat (map unit_bits t)"
  by (simp add: textToBinary_elements Array_from_no_pair o_def)

lemma length_unit_bits: "length (unit_bits c) = 16"
  by (simp add: unit_bits_def)

lemma binaryToText_loop_groups:
  "binaryToText_loop binary i chars =
   chars @ map (\<lambda>byte. fromCharCode (parseInt2 byte)) (groups16 (drop i binary))"
proof (induction binary i chars rule: binaryToText_loop.induct)
  case (1 binary i chars)
  show ?case
  proof (cases "i < length binary")
    case False
    then show ?thesis
      by (simp add: binaryToText_loop.simps [of binary i] groups16.simps [of "[]"])
  next
    case True
    define byte where "byte = slice binary i (i + 16)"
    have byte: "byte = take 16 (drop i binary)"
      by (simp add: byte_def slice_def take_drop add.commute)
    note ih = "1.IH" [OF True byte_def]
    show ?thesis
    proof (cases "length byte = 16")
      case full: True
      then have "\<not> length (drop i binary) < 16"
        by (auto simp: byte)
      then have "groups16 (drop i binary) = byte # groups16 (drop (i + 16) binary)"
        by (subst groups16.simps) (simp add: byte add.commute)
      then show ?thesis
        using True full ih by (simp add: binaryToText_loop.simps [of binary i] byte_def Let_def)
    next
      case short: False
      then have lt: "length (drop i binary) < 16"
        by (auto simp: byte)
      then have "groups16 (drop i binary) = []"
        by (subst groups16.simps) simp
      moreover have "groups16 (drop (i + 16) binary) = []"
        using lt by (subst groups16.simps) simp
      ultimately show ?thesis
        using True short ih by (simp add: binaryToText_loop.simps [of binary i] byte_def Let_def)
    qed
  qed
qed

lemma binaryToText_groups:
  "binaryToText binary = concat (map (\<lambda>byte. fromCharCode (parseInt2 byte)) (groups16 binary))"
  by (simp add: binaryToText_def join_def binaryToText_loop_groups)

lemma groups16_short: "length xs < 16 \<Longrightarrow> groups16 xs = []"
  by (subst groups16.simps) simp

lemma groups16_append: "length u = 16 \<Longrightarrow> groups16 (u @ xs) = u # groups16 xs"
  by (subst groups16.simps) simp

lemma length_groups16: "length (groups16 xs) = length xs div 16"
proof (induction xs rule: groups16.induct)
  case (1 xs)
  show ?case
  proof (cases "length xs < 16")
    case True
    then show ?thesis by (simp add: groups16_short)
  next
    case False
    then have "length (groups16 xs) = Suc (length (groups16 (drop 16 xs)))"
      by (subst groups16.simps) simp
    also have "\<dots> = Suc ((length xs - 16) div 16)"
      using "1.IH" [OF False] by simp
    also have "\<dots> = length xs div 16"
      using False by (simp add: le_div_geq)
    finally show ?thesis .
  qed
qed

lemma digits_value_snoc:
  "digits_value (ds @ [d]) = 2 * digits_value ds + (if d = chr1 then 1 else 0)"
  by (simp add: digits_value_def)

lemma digits_value_bits:
  "digits_value (map (\<lambda>i. bit_char (bit n i)) (rev [0..<k])) = int (n mod 2 ^ k)"
proof (induction k arbitrary: n)
  case 0
  show ?case by (simp add: digits_value_def)
next
  case (Suc k)
  have "map (\<lambda>i. bit_char (bit n i)) (rev [0..<Suc k]) =
        map (\<lambda>i. bit_char (bit (n div 2) i)) (rev [0..<k]) @ [bit_char (odd n)]"
    unfolding rev_upt_Suc by (simp add: o_def bit_Suc bit_0 del: upt_Suc)
  then have "digits_value (map (\<lambda>i. bit_char (bit n i)) (rev [0..<Suc k])) =
        2 * int ((n div 2) mod 2 ^ k) + (if bit_char (odd n) = chr1 then 1 else 0)"
    by (simp only: digits_value_snoc Suc.IH)
  also have "bit_char (odd n) = chr1 \<longleftrightarrow> odd n"
    by (simp add: bit_char_def chr0_def chr1_def)
  also have "2 * int ((n div 2) mod 2 ^ k) + (if odd n then 1 else 0) =
        int (2 * ((n div 2) mod 2 ^ k) + n mod 2)"
    by (simp add: odd_iff_mod_2_eq_one)
  also have "2 * ((n div 2) mod 2 ^ k) + n mod 2 = n mod 2 ^ Suc k"
    by (simp add: mod_mult2_eq)
  finally show ?case .
qed

lemma digits_value_unit_bits: "digits_value (unit_bits c) = uint c"
proof -
  have "unit_bits c = map (\<lambda>i. bit_char (bit (unat c) i)) (rev [0..<16])"
    unfolding unit_bits_def by (rule map_cong) (simp_all add: bit_unsigned_iff)
  then have "digits_value (unit_bits c) = int (unat c mod 2 ^ 16)"
    by (simp only: digits_value_bits)
  also have "unat c mod 2 ^ 16 = unat c"
  proof -
    have "unat c < 2 ^ 16"
      using unsigned_less [of c] by simp
    then show ?thesis by simp
  qed
  finally show ?thesis by simp
qed

lemma binary_digit_not_space: "is_binary_digit c \<Longrightarrow> \<not> is_StrWhiteSpaceChar c"
  by (auto simp: is_binary_digit_def is_StrWhiteSpaceChar_def chr0_def chr1_def)

lemma binary_digit_not_sign: "is_binary_digit c \<Longrightarrow> c \<noteq> 0x2B \<and> c \<noteq> 0x2D"
  by (auto simp: is_binary_digit_def chr0_def chr1_def)

text \<open>On a non-empty run of binary digits \<open>parseInt\<close> reads all of it.\<close>

lemma parseInt2_digits:
  assumes "list_all is_binary_digit u" and "u \<noteq> []"
  shows "parseInt2 u = Some (digits_value u)"
proof -
  obtain c cs where u: "u = c # cs"
    using assms(2) by (cases u) auto
  have c: "is_binary_digit c"
    using assms(1) by (simp add: u)
  have "dropWhile is_StrWhiteSpaceChar u = u"
    using binary_digit_not_space [OF c] by (simp add: u)
  moreover have "takeWhile is_binary_digit u = u"
    using assms(1) by (simp add: takeWhile_eq_all_conv list_all_iff)
  ultimately show ?thesis
    using binary_digit_not_sign [OF c] assms(2) by (simp add: parseInt2_def Let_def u)
qed

lemma is_binary_digit_bit_char: "is_binary_digit (bit_char b)"
  by (simp add: is_binary_digit_def bit_char_def)

lemma unit_bits_digits: "list_all is_binary_digit (unit_bits c)"
  by (simp add: unit_bits_def list_all_iff is_binary_digit_bit_char)

lemma fromCharCode_unit_bits: "fromCharCode (parseInt2 (unit_bits c)) = [c]"
proof -
  have "unit_bits c \<noteq> []"
    by (simp add: unit_bits_def)
  then have "parseInt2 (unit_bits c) = Some (uint c)"
    using parseInt2_digits [OF unit_bits_digits] by (simp add: digits_value_unit_bits)
  then show ?thesis
    by (simp add: fromCharCode_def)
qed

lemma groups16_units: "groups16 (concat (map unit_bits cs)) = map unit_bits cs"
  by (induction cs) (simp_all add: groups16_short groups16_append length_unit_bits)

text \<open>Decoding the bits of any sequence of code units gives the sequence back.\<close>

lemma binaryToText_units: "binaryToText (concat (map unit_bits cs)) = cs"
proof -
  have "concat (map (\<lambda>byte. fromCharCode (parseInt2 byte)) (map unit_bits cs)) = cs"
    by (induction cs) (simp_all add: fromCharCode_unit_bits)
  then show ?thesis
    by (simp add: binaryToText_groups groups16_units)
qed

lemma roundtrip_without_pairs:
  "\<not> has_surrogate_pair t \<Longrightarrow> binaryToText (textToBinary t) = t"
  by (simp add: textToBinary_units binaryToText_units)

text \<open>In general the decoder returns the first code unit of every element of \<open>Array.from\<close>.\<close>

lemma roundtrip_first_units: "binaryToText (textToBinary t) = map hd (Array_from t)"
proof -
  have "textToBinary t = concat (map unit_bits (map hd (Array_from t)))"
    by (simp add: textToBinary_elements o_def)
  then show ?thesis
    by (simp only: binaryToText_units)
qed

lemma digits_value_sum:
  "digits_value u = (\<Sum>i<length u. if u ! i = chr1 then 2 ^ (length u - 1 - i) else 0)"
proof (induction u rule: rev_induct)
  case Nil
  show ?case by (simp add: digits_value_def)
next
  case (snoc d ds)
  let ?n = "length ds"
  have step: "2 * (if ds ! i = chr1 then 2 ^ (?n - 1 - i) else 0) =
      (if (ds @ [d]) ! i = chr1 then 2 ^ (?n - i) else (0::int))" if "i < ?n" for i
  proof -
    have "?n - i = Suc (?n - 1 - i)"
      using that by simp
    then show ?thesis
      using that by (simp add: nth_append)
  qed
  have "digits_value (ds @ [d]) =
      2 * (\<Sum>i<?n. if ds ! i = chr1 then 2 ^ (?n - 1 - i) else 0) + (if d = chr1 then 1 else 0)"
    by (simp only: digits_value_snoc snoc.IH)
  also have "2 * (\<Sum>i<?n. if ds ! i = chr1 then 2 ^ (?n - 1 - i) else 0) =
      (\<Sum>i<?n. if (ds @ [d]) ! i = chr1 then 2 ^ (?n - i) else (0::int))"
    unfolding sum_distrib_left by (rule sum.cong) (simp_all add: step)
  finally have "digits_value (ds @ [d]) =
      (\<Sum>i<?n. if (ds @ [d]) ! i = chr1 then 2 ^ (?n - i) else 0) +
      (if (ds @ [d]) ! ?n = chr1 then 2 ^ (?n - ?n) else 0)"
    by simp
  also have "\<dots> = (\<Sum>i<Suc ?n. if (ds @ [d]) ! i = chr1 then 2 ^ (?n - i) else 0)"
    by (simp only: sum.lessThan_Suc)
  finally show ?case
    by (simp cong: if_cong)
qed

lemma word_of_digits_value:
  assumes "length u = 16"
  shows "word_of_int (digits_value u) = msb_first_unit u"
proof -
  have "digits_value u = (\<Sum>i<16. if u ! i = chr1 then 2 ^ (15 - i) else 0)"
    by (subst digits_value_sum) (simp add: assms cong: if_cong)
  then have "word_of_int (digits_value u) =
      (\<Sum>i<16. word_of_int (if u ! i = chr1 then 2 ^ (15 - i) else 0) :: code_unit)"
    by (simp only: of_int_sum)
  also have "\<dots> = msb_first_unit u"
    unfolding msb_first_unit_def by (rule sum.cong) simp_all
  finally show ?thesis .
qed

lemma groups16_members:
  "g \<in> set (groups16 xs) \<Longrightarrow> length g = 16 \<and> set g \<subseteq> set xs"
proof (induction xs rule: groups16.induct)
  case (1 xs)
  show ?case
  proof (cases "length xs < 16")
    case True
    then show ?thesis
      using "1.prems" by (simp add: groups16_short)
  next
    case False
    then have "groups16 xs = take 16 xs # groups16 (drop 16 xs)"
      by (subst groups16.simps) simp
    then consider "g = take 16 xs" | "g \<in> set (groups16 (drop 16 xs))"
      using "1.prems" by auto
    then show ?thesis
    proof cases
      case 1
      then show ?thesis
        using False by (auto dest: in_set_takeD)
    next
      case 2
      then show ?thesis
        using "1.IH" [OF False] by (auto dest: in_set_dropD)
    qed
  qed
qed

lemma fromCharCode_digits:
  assumes "list_all is_binary_digit u" and "length u = 16"
  shows "fromCharCode (parseInt2 u) = [msb_first_unit u]"
proof -
  have "u \<noteq> []"
    using assms(2) by auto
  then show ?thesis
    using parseInt2_digits [OF assms(1)] word_of_digits_value [OF assms(2)]
    by (simp add: fromCharCode_def)
qed

lemma binaryToText_bits:
  assumes "list_all is_binary_digit binary"
  shows "binaryToText binary = map msb_first_unit (groups16 binary)"
proof -
  have unit: "fromCharCode (parseInt2 g) = [msb_first_unit g]" if "g \<in> set (groups16 binary)" for g
  proof -
    have "length g = 16" and "set g \<subseteq> set binary"
      using groups16_members [OF that] by auto
    moreover have "list_all is_binary_digit g"
      using assms \<open>set g \<subseteq> set binary\<close> by (auto simp: list_all_iff)
    ultimately show ?thesis
      by (simp add: fromCharCode_digits)
  qed
  have eq: "map (\<lambda>byte. fromCharCode (parseInt2 byte)) (groups16 binary) =
      map (\<lambda>g. [msb_first_unit g]) (groups16 binary)"
    by (rule map_cong) (simp_all add: unit)
  show ?thesis
    by (simp only: binaryToText_groups eq concat_map_singleton)
qed

lemma length_binaryToText: "length (binaryToText binary) = length binary div 16"
proof -
  have "length (concat (map (\<lambda>byte. fromCharCode (parseInt2 byte)) gs)) = length gs" for gs
    by (induction gs) (simp_all add: fromCharCode_def)
  then show ?thesis
    by (simp add: binaryToText_groups length_groups16)
qed

lemma groups16_drop_tail:
  "groups16 (take (16 * (length xs div 16)) xs) = groups16 xs"
proof (induction xs rule: groups16.induct)
  case (1 xs)
  show ?case
  proof (cases "length xs < 16")
    case True
    then show ?thesis by (simp add: groups16_short)
  next
    case False
    define k where "k = (length xs - 16) div 16"
    have div: "length xs div 16 = Suc k"
      using False by (simp add: k_def le_div_geq)
    have ih: "groups16 (take (16 * k) (drop 16 xs)) = groups16 (drop 16 xs)"
      using "1.IH" [OF False] by (simp add: k_def)
    have split: "take (16 * Suc k) xs = take 16 xs @ take (16 * k) (drop 16 xs)"
      by (simp add: take_add [symmetric])
    have "length (take 16 xs) = 16"
      using False by simp
    then have "groups16 (take (16 * Suc k) xs) = take 16 xs # groups16 (drop 16 xs)"
      unfolding split by (simp only: groups16_append ih)
    moreover have "groups16 xs = take 16 xs # groups16 (drop 16 xs)"
      using False by (subst groups16.simps) simp
    ultimately show ?thesis
      by (simp only: div)
  qed
qed

lemma binaryToText_drop_tail:
  "binaryToText (take (16 * (length binary div 16)) binary) = binaryToText binary"
  by (simp only: binaryToText_groups groups16_drop_tail)

lemma groups16_17: "length xs = 17 \<Longrightarrow> groups16 xs = [take 16 xs]"
proof -
  assume len: "length xs = 17"
  then have "groups16 xs = take 16 xs # groups16 (drop 16 xs)"
    by (subst groups16.simps) simp
  moreover have "groups16 (drop 16 xs) = []"
    using len by (simp add: groups16_short)
  ultimately show ?thesis by simp
qed

section \<open>Facts about the sentinel scan\<close>

lemma first_pos_less: "c \<in> set s \<Longrightarrow> first_pos c s < length s"
  unfolding first_pos_def by (induction s) auto

lemma first_pos_absent: "c \<notin> set s \<Longrightarrow> first_pos c s = length s"
  unfolding first_pos_def by (induction s) auto

lemma indexOf_from_unit:
  "indexOf_from s [c] i = (if c \<in> set s then i + int (first_pos c s) else - 1)"
  by (induction s arbitrary: i) (auto simp: first_pos_def)

lemma indexOf_unit: "indexOf s [c] = (if c \<in> set s then int (first_pos c s) else - 1)"
  by (simp add: indexOf_def indexOf_from_unit)

lemma substring_in_range:
  "0 \<le> a \<Longrightarrow> a \<le> b \<Longrightarrow> b \<le> int (length s) \<Longrightarrow>
   substring s a b = take (nat (b - a)) (drop (nat a) s)"
  by (simp add: substring_def Let_def min_def max_def)

lemma high_surrogate_no_marker: "is_high_surrogate c \<Longrightarrow> c \<noteq> 0x200C \<and> c \<noteq> 0x200D"
  by (auto simp: is_high_surrogate_def)

lemma low_surrogate_no_marker: "is_low_surrogate c \<Longrightarrow> c \<noteq> 0x200C \<and> c \<noteq> 0x200D"
  by (auto simp: is_low_surrogate_def)

lemma marker_bits_Cons:
  "marker_bits (c # cs) =
     (if c = 0x200C then chr0 # marker_bits cs
      else if c = 0x200D then chr1 # marker_bits cs else marker_bits cs)"
  by (simp add: marker_bits_def)

lemma marker_bits_Nil: "marker_bits [] = []"
  by (simp add: marker_bits_def)

text \<open>
  The filter runs over code points, but a surrogate pair is never a marker, so it collects
  exactly the marker code units.
\<close>

lemma filter_markers_Array_from:
  "join (map (\<lambda>char. if char = ZW_ZERO then [chr0] else [chr1])
     (filter (\<lambda>char. char = ZW_ZERO \<or> char = ZW_ONE) (Array_from z))) = marker_bits z"
proof (induction z rule: Array_from.induct)
  case 1
  show ?case by (simp add: join_def marker_bits_Nil)
next
  case (2 c)
  show ?case
    by (simp add: join_def marker_bits_Cons marker_bits_Nil ZW_ZERO_def ZW_ONE_def)
next
  case (3 c d cs)
  show ?case
  proof (cases "is_high_surrogate c \<and> is_low_surrogate d")
    case True
    then have split: "Array_from (c # d # cs) = [c, d] # Array_from cs"
      by simp
    have "marker_bits (c # d # cs) = marker_bits cs"
      using True high_surrogate_no_marker [of c] low_surrogate_no_marker [of d]
      by (simp add: marker_bits_Cons)
    then show ?thesis
      unfolding split using "3.IH"(1) [OF True]
      by (simp add: join_def ZW_ZERO_def ZW_ONE_def)
  next
    case False
    then have split: "Array_from (c # d # cs) = [c] # Array_from (d # cs)"
      by simp
    show ?thesis
      unfolding split using "3.IH"(2) [OF False]
      by (simp add: join_def marker_bits_Cons [of c] ZW_ZERO_def ZW_ONE_def)
  qed
qed

lemma extract_binary_located:
  assumes "0x2060 \<in> set s" and "0xFEFF \<in> set s"
    and "first_pos 0x2060 s < first_pos 0xFEFF s"
  shows "extract_binary s (indexOf s ZW_START) (indexOf s ZW_END) =
         marker_bits (between_sentinels s)"
proof -
  let ?a = "first_pos 0x2060 s" and ?b = "first_pos 0xFEFF s"
  have idx: "indexOf s ZW_START = int ?a" "indexOf s ZW_END = int ?b"
    using assms by (simp_all add: ZW_START_def ZW_END_def indexOf_unit)
  have "?b < length s"
    using assms(2) by (rule first_pos_less)
  then have "substring s (int ?a + 1) (int ?b) = take (nat (int ?b - (int ?a + 1))) (drop (nat (int ?a + 1)) s)"
    using assms(3) by (intro substring_in_range) auto
  also have "\<dots> = between_sentinels s"
    using assms(3) by (simp add: between_sentinels_def nat_diff_distrib nat_add_distrib)
  finally show ?thesis
    by (simp add: extract_binary_def idx filter_markers_Array_from)
qed

text \<open>What \<open>handleDecrypt\<close> does once its two guards are passed.\<close>

lemma handleDecrypt_scan:
  assumes "inputText st \<noteq> []" and "\<not> pin_rejected (decryptPin st)"
  shows "handleDecrypt cj st =
    (if 0x2060 \<notin> set (inputText st) \<or> 0xFEFF \<notin> set (inputText st)
        \<or> first_pos 0xFEFF (inputText st) \<le> first_pos 0x2060 (inputText st)
     then st\<lparr>error := NotFound, resultText := []\<rparr>
     else if marker_bits (between_sentinels (inputText st)) = []
     then st\<lparr>error := EmptyPayload\<rparr>
     else
       (case decrypt_binary cj (marker_bits (between_sentinels (inputText st))) (decryptPin st) of
          None \<Rightarrow> st\<lparr>error := WrongKeyOrCorrupt, resultText := []\<rparr>
        | Some originalText \<Rightarrow> st\<lparr>error := NoMessage, resultText := originalText\<rparr>))"
proof (cases "0x2060 \<notin> set (inputText st) \<or> 0xFEFF \<notin> set (inputText st)
        \<or> first_pos 0xFEFF (inputText st) \<le> first_pos 0x2060 (inputText st)")
  case True
  then have "indexOf (inputText st) ZW_START = - 1 \<or> indexOf (inputText st) ZW_END = - 1
      \<or> indexOf (inputText st) ZW_END \<le> indexOf (inputText st) ZW_START"
    by (auto simp: ZW_START_def ZW_END_def indexOf_unit)
  then show ?thesis
    using assms True by (simp add: handleDecrypt_def Let_def)
next
  case False
  then have located: "0x2060 \<in> set (inputText st)" "0xFEFF \<in> set (inputText st)"
      "first_pos 0x2060 (inputText st) < first_pos 0xFEFF (inputText st)"
    by auto
  then have "\<not> (indexOf (inputText st) ZW_START = - 1 \<or> indexOf (inputText st) ZW_END = - 1
      \<or> indexOf (inputText st) ZW_END \<le> indexOf (inputText st) ZW_START)"
    by (auto simp: ZW_START_def ZW_END_def indexOf_unit)
  then show ?thesis
    using assms False extract_binary_located [OF located]
    by (simp add: handleDecrypt_def Let_def)
qed

section \<open>Facts about the marker run and the carrier\<close>

lemma textToBinary_digits: "list_all is_binary_digit (textToBinary t)"
proof -
  have "set (unit_bits c) \<subseteq> Collect is_binary_digit" for c
    using unit_bits_digits [of c] by (auto simp: list_all_iff)
  then show ?thesis
    by (auto simp: textToBinary_elements list_all_iff)
qed

lemma length_textToBinary: "length (textToBinary t) = 16 * length (Array_from t)"
proof -
  have "length (concat (map (\<lambda>e. unit_bits (hd e)) es)) = 16 * length es" for es
    by (induction es) (simp_all add: length_unit_bits)
  then show ?thesis
    by (simp add: textToBinary_elements)
qed

lemma textToBinary_nonempty: "t \<noteq> [] \<Longrightarrow> textToBinary t \<noteq> []"
proof -
  assume "t \<noteq> []"
  then have "Array_from t \<noteq> []"
    by (cases t rule: Array_from.cases) auto
  then have "length (textToBinary t) \<noteq> 0"
    by (simp add: length_textToBinary)
  then show ?thesis by auto
qed

lemma binary_digit_not_surrogate: "is_binary_digit c \<Longrightarrow> \<not> is_high_surrogate c"
  by (auto simp: is_binary_digit_def is_high_surrogate_def chr0_def chr1_def)

lemma digits_no_pair: "list_all is_binary_digit b \<Longrightarrow> \<not> has_surrogate_pair b"
  by (induction b rule: has_surrogate_pair.induct) (auto simp: binary_digit_not_surrogate)

text \<open>The marker run of a string of binary digits, code unit by code unit.\<close>

lemma hiddenChars_digits:
  assumes "list_all is_binary_digit b"
  shows "hiddenChars b = 0x2060 # map (\<lambda>x. if x = chr0 then 0x200C else 0x200D) b @ [0xFEFF]"
proof -
  have "Array_from b = map (\<lambda>c. [c]) b"
    using assms by (intro Array_from_no_pair digits_no_pair)
  moreover have "concat (map (\<lambda>x. if [x] = [chr0] then ZW_ZERO else ZW_ONE) b) =
      map (\<lambda>x. if x = chr0 then 0x200C else (0x200D::code_unit)) b" for b :: jsstring
    by (induction b) (auto simp: ZW_ZERO_def ZW_ONE_def)
  ultimately show ?thesis
    by (simp add: hiddenChars_def join_def ZW_START_def ZW_END_def o_def)
qed

lemma hiddenChars_p0_digits:
  assumes "list_all is_binary_digit b"
  shows "hiddenChars_p0 b = map (\<lambda>x. if x = chr0 then 0x200B else 0x200C) b"
proof -
  have "Array_from b = map (\<lambda>c. [c]) b"
    using assms by (intro Array_from_no_pair digits_no_pair)
  moreover have "concat (map (\<lambda>x. if [x] = [chr0] then ZW_ZERO_p0 else ZW_ONE_p0) b) =
      map (\<lambda>x. if x = chr0 then 0x200B else (0x200C::code_unit)) b" for b :: jsstring
    by (induction b) (auto simp: ZW_ZERO_p0_def ZW_ONE_p0_def)
  ultimately show ?thesis
    by (simp add: hiddenChars_p0_def join_def o_def)
qed

lemma marker_bits_of_marks:
  "list_all is_binary_digit b \<Longrightarrow>
   marker_bits (map (\<lambda>x. if x = chr0 then 0x200C else 0x200D) b) = b"
  by (induction b) (auto simp: marker_bits_Cons marker_bits_Nil is_binary_digit_def)

lemma strip_markers_append: "strip_markers (xs @ ys) = strip_markers xs @ strip_markers ys"
  by (simp add: strip_markers_def)

lemma strip_markers_p0_append:
  "strip_markers_p0 (xs @ ys) = strip_markers_p0 xs @ strip_markers_p0 ys"
  by (simp add: strip_markers_p0_def)

lemma strip_hiddenChars: "strip_markers (hiddenChars b) = []"
proof -
  have "strip_markers (concat (map (\<lambda>bit. if bit = [chr0] then ZW_ZERO else ZW_ONE) es)) = []"
    for es :: "jsstring list"
    by (induction es) (simp_all add: strip_markers_def ZW_ZERO_def ZW_ONE_def)
  moreover have "strip_markers ZW_START = []" and "strip_markers ZW_END = []"
    by (simp_all add: strip_markers_def ZW_START_def ZW_END_def)
  ultimately show ?thesis
    by (simp add: hiddenChars_def join_def strip_markers_append)
qed

lemma strip_hiddenChars_p0: "strip_markers_p0 (hiddenChars_p0 b) = []"
proof -
  have "strip_markers_p0 (concat (map (\<lambda>bit. if bit = [chr0] then ZW_ZERO_p0 else ZW_ONE_p0) es)) = []"
    for es :: "jsstring list"
    by (induction es) (simp_all add: strip_markers_p0_def ZW_ZERO_p0_def ZW_ONE_p0_def)
  then show ?thesis
    by (simp add: hiddenChars_p0_def join_def)
qed

lemma strip_interleave: "strip_markers (interleave cover (hiddenChars b)) = strip_markers cover"
proof (cases cover)
  case Nil
  then show ?thesis
    by (simp add: interleave_def strip_hiddenChars) (simp add: strip_markers_def)
next
  case (Cons c cs)
  have "interleave (c # cs) (hiddenChars b) = [c] @ hiddenChars b @ cs"
    by (simp add: interleave_def slice_from_def)
  then have "strip_markers (interleave (c # cs) (hiddenChars b)) = strip_markers [c] @ strip_markers cs"
    by (simp only: strip_markers_append strip_hiddenChars append_Nil)
  also have "\<dots> = strip_markers (c # cs)"
    by (simp add: strip_markers_def)
  finally show ?thesis
    by (simp only: Cons)
qed

lemma strip_appended: "strip_markers_p0 (cover @ hiddenChars_p0 b) = strip_markers_p0 cover"
  by (simp add: strip_markers_p0_append strip_hiddenChars_p0)

lemma strip_markers_free:
  "list_all (\<lambda>c. c \<notin> {0x200C, 0x200D, 0x2060, 0xFEFF}) s \<Longrightarrow> strip_markers s = s"
  by (simp add: strip_markers_def list_all_iff)

lemma strip_markers_p0_free:
  "list_all (\<lambda>c. c \<notin> {0x200B, 0x200C}) s \<Longrightarrow> strip_markers_p0 s = s"
  by (simp add: strip_markers_p0_def list_all_iff)

text \<open>
  The scan of a carrier that \<open>handleEncrypt\<close> built: when the cover does not start with
  END-MARK, the sentinels are found and the bits between them are those written.
\<close>

lemma scan_of_carrier:
  fixes b cs :: jsstring and c :: code_unit
  assumes digits: "list_all is_binary_digit b" and c: "c \<noteq> 0xFEFF"
  defines "carrier \<equiv> interleave (c # cs) (hiddenChars b)"
  shows "0x2060 \<in> set carrier \<and> 0xFEFF \<in> set carrier
    \<and> first_pos 0x2060 carrier < first_pos 0xFEFF carrier
    \<and> marker_bits (between_sentinels carrier) = b"
proof -
  define marks where "marks = map (\<lambda>x. if x = chr0 then 0x200C else (0x200D::code_unit)) b"
  have carrier: "carrier = c # 0x2060 # marks @ 0xFEFF # cs"
    by (simp add: carrier_def interleave_def slice_from_def hiddenChars_digits [OF digits] marks_def)
  have no_end: "0xFEFF \<notin> set marks"
    by (auto simp: marks_def)
  have tw: "takeWhile (\<lambda>x. x \<noteq> 0xFEFF) (marks @ 0xFEFF # cs) = marks"
    using no_end by (simp add: takeWhile_append)
  have pe: "first_pos 0xFEFF carrier = length marks + 2"
    using c by (simp add: first_pos_def carrier tw)
  have ps: "first_pos 0x2060 carrier = (if c = 0x2060 then 0 else 1)"
    by (simp add: first_pos_def carrier)
  have bits: "marker_bits marks = b"
    unfolding marks_def using digits by (rule marker_bits_of_marks)
  have "between_sentinels carrier =
      take (length marks + 2 - (if c = 0x2060 then 0 else 1) - 1)
        (drop ((if c = 0x2060 then 0 else 1) + 1) carrier)"
    by (simp only: between_sentinels_def pe ps)
  then have between: "between_sentinels carrier = (if c = 0x2060 then 0x2060 # marks else marks)"
    by (simp add: carrier)
  have "marker_bits (between_sentinels carrier) = b"
    by (simp add: between marker_bits_Cons bits)
  moreover have "0x2060 \<in> set carrier" and "0xFEFF \<in> set carrier"
    by (simp_all add: carrier)
  moreover have "first_pos 0x2060 carrier < first_pos 0xFEFF carrier"
    by (simp add: pe ps)
  ultimately show ?thesis
    by simp
qed

text \<open>\<open>handleEncrypt\<close> when its guards are passed and the library returns an envelope.\<close>

lemma handleEncrypt_success:
  assumes "secretMessage st \<noteq> []" and "coverText st \<noteq> []"
    and "\<not> pin_rejected (encryptPin st)"
    and "AES_encrypt cj r (secretMessage st) (encryptPin st) = Some e"
  shows "handleEncrypt cj r st =
    st\<lparr>error := NoMessage, resultText := interleave (coverText st) (hiddenChars (textToBinary e))\<rparr>"
  using assms by (simp add: handleEncrypt_def Let_def)

text \<open>
  Revealing what was hidden, for a message that is not empty and a cover that does not
  start with END-MARK, when the library returns a non-empty envelope without surrogate
  pairs and opens it again with the same PIN.
\<close>

lemma seal_then_open_success:
  assumes secret: "secretMessage st \<noteq> []"
    and cover: "coverText st \<noteq> []" "hd (coverText st) \<noteq> 0xFEFF"
    and pin: "\<not> pin_rejected (encryptPin st)"
    and enc: "AES_encrypt cj r (secretMessage st) (encryptPin st) = Some e"
    and env: "e \<noteq> []" "\<not> has_surrogate_pair e"
    and dec: "AES_decrypt cj e (encryptPin st) = Some w"
    and utf: "Utf8_stringify cj w = Some (secretMessage st)"
  shows "seal_then_open cj r st =
    st\<lparr>decryptPin := encryptPin st,
       inputText := interleave (coverText st) (hiddenChars (textToBinary e)),
       error := NoMessage, resultText := secretMessage st\<rparr>"
proof -
  obtain c cs where cv: "coverText st = c # cs"
    using cover(1) by (cases "coverText st") auto
  have c: "c \<noteq> 0xFEFF"
    using cover(2) by (simp add: cv)
  define carrier where "carrier = interleave (coverText st) (hiddenChars (textToBinary e))"
  define st1 where "st1 = handleEncrypt cj r st"
  define st2 where "st2 = st1\<lparr>inputText := resultText st1, decryptPin := encryptPin st\<rparr>"
  have st1: "st1 = st\<lparr>error := NoMessage, resultText := carrier\<rparr>"
    unfolding st1_def carrier_def by (rule handleEncrypt_success [OF secret cover(1) pin enc])
  have input: "inputText st2 = carrier" and dpin: "decryptPin st2 = encryptPin st"
    by (simp_all add: st2_def st1)
  have scan: "0x2060 \<in> set carrier \<and> 0xFEFF \<in> set carrier
      \<and> first_pos 0x2060 carrier < first_pos 0xFEFF carrier
      \<and> marker_bits (between_sentinels carrier) = textToBinary e"
    unfolding carrier_def cv by (rule scan_of_carrier [OF textToBinary_digits c])
  have nonempty: "carrier \<noteq> []"
    using scan by auto
  have bits: "textToBinary e \<noteq> []"
    using env(1) by (rule textToBinary_nonempty)
  have "decrypt_binary cj (textToBinary e) (encryptPin st) = Some (secretMessage st)"
    using dec utf secret by (simp add: decrypt_binary_def roundtrip_without_pairs [OF env(2)])
  then have "handleDecrypt cj st2 = st2\<lparr>error := NoMessage, resultText := secretMessage st\<rparr>"
    using handleDecrypt_scan [of st2 cj] scan bits nonempty pin
    by (simp add: input dpin)
  moreover have "seal_then_open cj r st = handleDecrypt cj st2"
    by (simp add: seal_then_open_def st1_def st2_def Let_def)
  ultimately show ?thesis
    by (simp add: st2_def st1 carrier_def)
qed

text \<open>The \<open>try\<close> block never yields the empty string.\<close>

lemma decrypt_binary_nonempty: "decrypt_binary cj binary pin \<noteq> Some []"
  by (simp add: decrypt_binary_def Let_def split: option.split)

lemma decrypt_binary_empty_text:
  "AES_decrypt cj (binaryToText binary) pin = Some w \<Longrightarrow> Utf8_stringify cj w = Some [] \<Longrightarrow>
   decrypt_binary cj binary pin = None"
  by (simp add: decrypt_binary_def Let_def)

lemma handleDecrypt_success_nonempty:
  "error (handleDecrypt cj st) = NoMessage \<Longrightarrow> resultText (handleDecrypt cj st) \<noteq> []"
  using decrypt_binary_nonempty [of cj]
  by (auto simp: handleDecrypt_def Let_def split: if_splits option.splits)

lemma handleDecrypt_p0_success_nonempty:
  "error_p0 (handleDecrypt_p0 cj st) = NoMessage_p0 \<Longrightarrow> resultText_p0 (handleDecrypt_p0 cj st) \<noteq> []"
  using decrypt_binary_nonempty [of cj]
  by (auto simp: handleDecrypt_p0_def Let_def split: if_splits option.splits)

text \<open>The unmarked scan of a carrier that the earlier \<open>handleEncrypt\<close> built.\<close>

lemma match_markers_p0_carrier:
  assumes digits: "list_all is_binary_digit b" and "b \<noteq> []"
    and cover: "list_all (\<lambda>c. c \<notin> {0x200B, 0x200C}) cover"
  shows "match_markers_p0 (cover @ hiddenChars_p0 b) =
         Some (map (\<lambda>x. if x = chr0 then ZW_ZERO_p0 else ZW_ONE_p0) b)"
proof -
  define marks where "marks = map (\<lambda>x. if x = chr0 then 0x200B else (0x200C::code_unit)) b"
  have hidden: "hiddenChars_p0 b = marks"
    unfolding marks_def using digits by (rule hiddenChars_p0_digits)
  have "filter (\<lambda>c. c = 0x200B \<or> c = 0x200C) cover = []"
    using cover by (auto simp: list_all_iff filter_empty_conv)
  moreover have "filter (\<lambda>c. c = 0x200B \<or> c = 0x200C) marks = marks"
    unfolding marks_def by (induction b) auto
  ultimately have found: "filter (\<lambda>c. [c] = ZW_ZERO_p0 \<or> [c] = ZW_ONE_p0) (cover @ marks) = marks"
    by (simp add: ZW_ZERO_p0_def ZW_ONE_p0_def)
  have strings: "map (\<lambda>c. [c]) marks = map (\<lambda>x. if x = chr0 then ZW_ZERO_p0 else ZW_ONE_p0) b"
    by (simp add: marks_def ZW_ZERO_p0_def ZW_ONE_p0_def)
  have "marks \<noteq> []"
    using \<open>b \<noteq> []\<close> by (simp add: marks_def)
  then show ?thesis
    unfolding match_markers_p0_def hidden found strings [symmetric] by (simp add: Let_def)
qed

lemma bits_of_matches_p0:
  "list_all is_binary_digit b \<Longrightarrow>
   join (map (\<lambda>char. if char = ZW_ZERO_p0 then [chr0] else [chr1])
     (map (\<lambda>x. if x = chr0 then ZW_ZERO_p0 else ZW_ONE_p0) b)) = b"
  by (induction b) (auto simp: join_def ZW_ZERO_p0_def ZW_ONE_p0_def is_binary_digit_def)

section \<open>The claims about the bit codec\<close>

lemmas codec_eval = textToBinary_def binaryToText_def join_def padStart_def toString2_def
  charCodeAt_def is_high_surrogate_def is_low_surrogate_def bit_char_def chr0_def chr1_def
  slice_def parseInt2_def fromCharCode_def is_StrWhiteSpaceChar_def is_binary_digit_def
  digits_value_def binary_digits.simps binaryToText_loop.simps

text \<open>
  C2 (bit-codec round trip). The claim asks that decoding the encoding of every well-formed
  UTF-16 text gives the text back, texts with surrogate pairs included. On the text
  U+1F600 (the units D83D DE00) \<open>textToBinary\<close> writes the bits of D83D only, and the
  decoder returns the lone high surrogate: the low surrogate is lost.
\<close>

theorem roundtrip_loses_low_surrogate:
  "binaryToText (textToBinary [0xD83D, 0xDE00]) = [0xD83D]"
  by (simp add: codec_eval)

text \<open>
  C3 (sixteen bits for every code unit). The claim asks for two groups of sixteen bits for a
  code point above U+FFFF. For U+1F600 \<open>textToBinary\<close> emits sixteen bits in all, those of
  the high surrogate: \<open>Array.from\<close> hands the pair over as one element and
  \<open>charCodeAt(0)\<close> reads its first unit only.
\<close>

theorem pair_encoded_as_one_unit:
  "textToBinary [0xD83D, 0xDE00] = unit_bits 0xD83D \<and> length (textToBinary [0xD83D, 0xDE00]) = 16"
  by (simp add: textToBinary_elements is_high_surrogate_def is_low_surrogate_def length_unit_bits)

text \<open>
  C7 (truncated unit). \<open>binaryToText\<close> never fails and returns one code unit for every
  complete group of sixteen characters: the result has \<open>length binary div 16\<close> units and
  does not change when the incomplete group at the end is cut off. On a stream of binary
  digits each unit is the value of its group read most significant bit first. A stream
  of seventeen digits therefore decodes to the one unit of its first sixteen digits, and
  to the same as the stream without its last digit.
\<close>

theorem truncated_unit_discarded:
  "length (binaryToText binary) = length binary div 16
   \<and> binaryToText (take (16 * (length binary div 16)) binary) = binaryToText binary
   \<and> (list_all is_binary_digit binary \<longrightarrow>
        binaryToText binary = map msb_first_unit (groups16 binary))
   \<and> (list_all is_binary_digit binary \<and> length binary = 17 \<longrightarrow>
        binaryToText binary = [msb_first_unit (take 16 binary)]
        \<and> binaryToText binary = binaryToText (butlast binary))"
proof -
  have seventeen: "binaryToText binary = [msb_first_unit (take 16 binary)]
      \<and> binaryToText binary = binaryToText (butlast binary)"
    if bits: "list_all is_binary_digit binary" and len: "length binary = 17"
  proof -
    have one: "binaryToText binary = [msb_first_unit (take 16 binary)]"
      by (simp add: binaryToText_bits [OF bits] groups16_17 [OF len])
    have "butlast binary = take (16 * (length binary div 16)) binary"
      by (simp add: butlast_conv_take len)
    then show ?thesis
      using one by (simp only: binaryToText_drop_tail simp_thms)
  qed
  show ?thesis
  proof (intro conjI impI)
    show "length (binaryToText binary) = length binary div 16"
      by (rule length_binaryToText)
    show "binaryToText (take (16 * (length binary div 16)) binary) = binaryToText binary"
      by (rule binaryToText_drop_tail)
    show "binaryToText binary = map msb_first_unit (groups16 binary)"
      if "list_all is_binary_digit binary"
      using that by (rule binaryToText_bits)
    show "binaryToText binary = [msb_first_unit (take 16 binary)]"
      if "list_all is_binary_digit binary \<and> length binary = 17"
      using that seventeen by blast
    show "binaryToText binary = binaryToText (butlast binary)"
      if "list_all is_binary_digit binary \<and> length binary = 17"
      using that seventeen by blast
  qed
qed

theorem truncated_unit_discarded_witness:
  "list_all is_binary_digit (replicate 15 chr0 @ [chr1, chr1])
   \<and> length (replicate 15 chr0 @ [chr1, chr1]) = 17
   \<and> binaryToText (replicate 15 chr0 @ [chr1, chr1]) = [1]
   \<and> binaryToText (replicate 15 chr0 @ [chr1, chr1]) = binaryToText (replicate 15 chr0 @ [chr1])
   \<and> length (binaryToText (replicate 15 chr0 @ [chr1, chr1])) = 1"
proof -
  let ?b = "replicate 15 chr0 @ [chr1, chr1]"
  have bits: "list_all is_binary_digit ?b"
    by (simp add: is_binary_digit_def list_all_iff)
  have len: "length ?b = 17"
    by simp
  have t16: "take 16 ?b = replicate 15 chr0 @ [chr1]"
    by simp
  have val: "msb_first_unit (replicate 15 chr0 @ [chr1]) = 1"
    by (simp add: msb_first_unit_def numeral_eq_Suc lessThan_Suc chr0_def chr1_def)
  have bl: "butlast ?b = replicate 15 chr0 @ [chr1]"
    by (simp add: butlast_append)
  from truncated_unit_discarded [of ?b] bits len
  have "binaryToText ?b = [msb_first_unit (take 16 ?b)]"
    and "binaryToText ?b = binaryToText (butlast ?b)"
    and "length (binaryToText ?b) = length ?b div 16"
    by blast+
  then show ?thesis
    using bits by (simp only: t16 val bl len) simp
qed

section \<open>The claims about splicing and the sentinel scan\<close>

text \<open>
  C4 (sentinel scan contract). Once \<open>handleDecrypt\<close> has passed its two guards (the input
  is not empty and the PIN has four digits), for every input text: if START-MARK (U+2060)
  is absent, or END-MARK (U+FEFF) is absent, or the first END-MARK does not come strictly
  after the first START-MARK, it reports \<open>NotFound\<close> (and clears the result). Otherwise
  the bits are exactly the ZERO-MARKs and ONE-MARKs strictly between the two positions,
  everything else there being ignored; when there is none it reports \<open>EmptyPayload\<close>,
  which is another message than \<open>NotFound\<close>; when there are some, they are what is
  decoded and decrypted.
\<close>

theorem sentinel_scan_contract:
  assumes "inputText st \<noteq> []" and "\<not> pin_rejected (decryptPin st)"
  shows "handleDecrypt cj st =
    (if 0x2060 \<notin> set (inputText st) \<or> 0xFEFF \<notin> set (inputText st)
        \<or> first_pos 0xFEFF (inputText st) \<le> first_pos 0x2060 (inputText st)
     then st\<lparr>error := NotFound, resultText := []\<rparr>
     else if marker_bits (between_sentinels (inputText st)) = []
     then st\<lparr>error := EmptyPayload\<rparr>
     else
       (case decrypt_binary cj (marker_bits (between_sentinels (inputText st))) (decryptPin st) of
          None \<Rightarrow> st\<lparr>error := WrongKeyOrCorrupt, resultText := []\<rparr>
        | Some originalText \<Rightarrow> st\<lparr>error := NoMessage, resultText := originalText\<rparr>))
    \<and> EmptyPayload \<noteq> NotFound"
proof
  show "EmptyPayload \<noteq> NotFound"
    by simp
qed (rule handleDecrypt_scan [OF assms])

theorem sentinel_scan_contract_witness:
  "(let st = \<lparr>secretMessage = [], coverText = [], encryptPin = [], decryptPin = [0x31, 0x32, 0x33, 0x34],
              inputText = [0x41, 0x2060, 0x42, 0xFEFF], resultText = [0x43], error = NoMessage\<rparr>
    in inputText st \<noteq> [] \<and> \<not> pin_rejected (decryptPin st)
       \<and> handleDecrypt demo_cryptojs st = st\<lparr>error := EmptyPayload\<rparr>)"
proof -
  let ?st = "\<lparr>secretMessage = [], coverText = [], encryptPin = [], decryptPin = [0x31, 0x32, 0x33, 0x34],
              inputText = [0x41, 0x2060, 0x42, 0xFEFF], resultText = [0x43], error = NoMessage\<rparr>"
  have g1: "inputText ?st \<noteq> []"
    by simp
  have g2: "\<not> pin_rejected (decryptPin ?st)"
    by (simp add: pin_rejected_def all_digits_def is_digit_def)
  have "handleDecrypt demo_cryptojs ?st = ?st\<lparr>error := EmptyPayload\<rparr>"
    using sentinel_scan_contract [OF g1 g2, of demo_cryptojs]
    by (simp add: first_pos_def between_sentinels_def marker_bits_def)
  then show ?thesis
    using g1 g2 by (simp only: Let_def simp_thms)
qed

section \<open>The claims about the carrier\<close>

text \<open>
  C8 (marker transparency), as amended. Removing the marker alphabet from the carrier
  gives the cover with its own marker code units removed, for the interleaved carrier
  (alphabet U+200C, U+200D, U+2060, U+FEFF) and for the appended carrier of the earlier
  revision (alphabet U+200B, U+200C); it gives exactly the cover whenever the cover holds
  no code unit of the alphabet.
\<close>

theorem marker_transparency:
  "strip_markers (interleave cover (hiddenChars (textToBinary text))) = strip_markers cover
   \<and> strip_markers_p0 (cover @ hiddenChars_p0 (textToBinary text)) = strip_markers_p0 cover
   \<and> (list_all (\<lambda>c. c \<notin> {0x200C, 0x200D, 0x2060, 0xFEFF}) cover \<longrightarrow>
        strip_markers (interleave cover (hiddenChars (textToBinary text))) = cover)
   \<and> (list_all (\<lambda>c. c \<notin> {0x200B, 0x200C}) cover \<longrightarrow>
        strip_markers_p0 (cover @ hiddenChars_p0 (textToBinary text)) = cover)"
  by (simp add: strip_interleave strip_appended strip_markers_free strip_markers_p0_free)

theorem marker_transparency_witness:
  "list_all (\<lambda>c. c \<notin> {0x200C, 0x200D, 0x2060, 0xFEFF}) [0x74, 0x65, 0x73, 0x74 :: code_unit]
   \<and> list_all (\<lambda>c. c \<notin> {0x200B, 0x200C}) [0x74, 0x65, 0x73, 0x74 :: code_unit]
   \<and> strip_markers (interleave [0x74, 0x65, 0x73, 0x74] (hiddenChars (textToBinary [0x68, 0x69])))
       = [0x74, 0x65, 0x73, 0x74]
   \<and> strip_markers_p0 ([0x74, 0x65, 0x73, 0x74] @ hiddenChars_p0 (textToBinary [0x68, 0x69]))
       = [0x74, 0x65, 0x73, 0x74]"
proof -
  have free: "list_all (\<lambda>c. c \<notin> {0x200C, 0x200D, 0x2060, 0xFEFF}) [0x74, 0x65, 0x73, 0x74 :: code_unit]"
    by simp
  have free_p0: "list_all (\<lambda>c. c \<notin> {0x200B, 0x200C}) [0x74, 0x65, 0x73, 0x74 :: code_unit]"
    by simp
  show ?thesis
    using marker_transparency [of "[0x74, 0x65, 0x73, 0x74]" "[0x68, 0x69]"] free free_p0
    by blast
qed

text \<open>
  The claim as stated fails for a cover that itself holds a marker code unit: for the
  cover U+200C (the zero-width non-joiner, common in Persian text) stripping the carrier
  leaves nothing, in both variants.
\<close>

theorem marker_transparency_counterexample:
  "strip_markers (interleave [0x200C] (hiddenChars (textToBinary [0x68]))) \<noteq> [0x200C]
   \<and> strip_markers_p0 ([0x200C] @ hiddenChars_p0 (textToBinary [0x68])) \<noteq> [0x200C]"
proof -
  have "strip_markers (interleave [0x200C] (hiddenChars (textToBinary [0x68]))) = strip_markers [0x200C]"
    by (rule strip_interleave)
  moreover have "strip_markers_p0 ([0x200C] @ hiddenChars_p0 (textToBinary [0x68])) =
      strip_markers_p0 [0x200C]"
    by (rule strip_appended)
  moreover have "strip_markers [0x200C] = []" and "strip_markers_p0 [0x200C] = []"
    by (simp_all add: strip_markers_def strip_markers_p0_def)
  ultimately show ?thesis
    by simp
qed

section \<open>The claims about the envelope\<close>

lemma pin_1234_accepted: "\<not> pin_rejected [0x31, 0x32, 0x33, 0x34]"
  by (simp add: pin_rejected_def all_digits_def is_digit_def)

lemma pin_0000_accepted: "\<not> pin_rejected [0x30, 0x30, 0x30, 0x30]"
  by (simp add: pin_rejected_def all_digits_def is_digit_def)

text \<open>
  C1 (envelope round trip), as amended. For every message that is not empty, every PIN of
  four digits and every cover that is not empty and does not start with U+FEFF: if the
  library returns a non-empty envelope without surrogate pairs for the message and the
  PIN, and turns that envelope back into the message with the same PIN, then
  \<open>handleDecrypt\<close> run on the output of \<open>handleEncrypt\<close> with the same PIN shows the
  message and no error.
\<close>

theorem seal_then_open_roundtrip:
  assumes "secretMessage st \<noteq> []"
    and "coverText st \<noteq> []" and "hd (coverText st) \<noteq> 0xFEFF"
    and "\<not> pin_rejected (encryptPin st)"
    and "AES_encrypt cj r (secretMessage st) (encryptPin st) = Some e"
    and "e \<noteq> []" and "\<not> has_surrogate_pair e"
    and "AES_decrypt cj e (encryptPin st) = Some w"
    and "Utf8_stringify cj w = Some (secretMessage st)"
  shows "resultText (seal_then_open cj r st) = secretMessage st
    \<and> error (seal_then_open cj r st) = NoMessage"
  by (simp add: seal_then_open_success [OF assms])

theorem seal_then_open_roundtrip_witness:
  "(let st = \<lparr>secretMessage = [0x68, 0x69], coverText = [0x74, 0x65, 0x73, 0x74],
               encryptPin = [0x30, 0x30, 0x30, 0x30], decryptPin = [], inputText = [],
               resultText = [], error = NoMessage\<rparr>
    in AES_encrypt demo_cryptojs () (secretMessage st) (encryptPin st)
         = Some [0x30, 0x30, 0x30, 0x30, 0x68, 0x69]
       \<and> AES_decrypt demo_cryptojs [0x30, 0x30, 0x30, 0x30, 0x68, 0x69] (encryptPin st)
         = Some [0x68, 0x69]
       \<and> resultText (seal_then_open demo_cryptojs () st) = [0x68, 0x69]
       \<and> error (seal_then_open demo_cryptojs () st) = NoMessage)"
proof -
  let ?st = "\<lparr>secretMessage = [0x68, 0x69], coverText = [0x74, 0x65, 0x73, 0x74],
               encryptPin = [0x30, 0x30, 0x30, 0x30], decryptPin = [], inputText = [],
               resultText = [], error = NoMessage\<rparr>"
  let ?e = "[0x30, 0x30, 0x30, 0x30, 0x68, 0x69] :: jsstring"
  have h1: "secretMessage ?st \<noteq> []" and h2: "coverText ?st \<noteq> []"
    and h3: "hd (coverText ?st) \<noteq> 0xFEFF"
    by simp_all
  have h4: "\<not> pin_rejected (encryptPin ?st)"
    using pin_0000_accepted by simp
  have h5: "AES_encrypt demo_cryptojs () (secretMessage ?st) (encryptPin ?st) = Some ?e"
    by (simp add: demo_cryptojs_def)
  have h6: "?e \<noteq> []" and h7: "\<not> has_surrogate_pair ?e"
    by (simp_all add: is_high_surrogate_def)
  have h8: "AES_decrypt demo_cryptojs ?e (encryptPin ?st) = Some [0x68, 0x69]"
    by (simp add: demo_cryptojs_def)
  have h9: "Utf8_stringify demo_cryptojs [0x68, 0x69] = Some (secretMessage ?st)"
    by (simp add: demo_cryptojs_def)
  have "resultText (seal_then_open demo_cryptojs () ?st) = secretMessage ?st
      \<and> error (seal_then_open demo_cryptojs () ?st) = NoMessage"
    by (rule seal_then_open_roundtrip [OF h1 h2 h3 h4 h5 h6 h7 h8 h9])
  then show ?thesis
    using h5 h8 by (simp add: Let_def)
qed

text \<open>
  The claim as stated includes the empty message, and fails there. \<open>handleEncrypt\<close>
  rejects it (it only sets the error "enter the secret message"), so nothing is sealed
  and revealing fails. And where an envelope of the empty message is put into a carrier
  all the same, here with a stand-in library that seals and opens the empty message
  correctly, \<open>handleDecrypt\<close> reports \<open>WrongKeyOrCorrupt\<close> instead of the empty message.
\<close>

theorem seal_then_open_empty_counterexample:
  "AES_encrypt demo_cryptojs () [] [0x31, 0x32, 0x33, 0x34] = Some [0x31, 0x32, 0x33, 0x34]
   \<and> AES_decrypt demo_cryptojs [0x31, 0x32, 0x33, 0x34] [0x31, 0x32, 0x33, 0x34] = Some []
   \<and> Utf8_stringify demo_cryptojs [] = Some []
   \<and> handleEncrypt demo_cryptojs ()
        \<lparr>secretMessage = [], coverText = [0x41], encryptPin = [0x31, 0x32, 0x33, 0x34],
         decryptPin = [], inputText = [], resultText = [], error = NoMessage\<rparr>
      = \<lparr>secretMessage = [], coverText = [0x41], encryptPin = [0x31, 0x32, 0x33, 0x34],
         decryptPin = [], inputText = [], resultText = [], error = EnterSecret\<rparr>
   \<and> error (seal_then_open demo_cryptojs ()
        \<lparr>secretMessage = [], coverText = [0x41], encryptPin = [0x31, 0x32, 0x33, 0x34],
         decryptPin = [], inputText = [], resultText = [], error = NoMessage\<rparr>) = EnterInput
   \<and> error (handleDecrypt demo_cryptojs
        \<lparr>secretMessage = [], coverText = [0x41], encryptPin = [0x31, 0x32, 0x33, 0x34],
         decryptPin = [0x31, 0x32, 0x33, 0x34],
         inputText = interleave [0x41] (hiddenChars (textToBinary [0x31, 0x32, 0x33, 0x34])),
         resultText = [], error = NoMessage\<rparr>) = WrongKeyOrCorrupt"
proof -
  let ?pin = "[0x31, 0x32, 0x33, 0x34] :: jsstring"
  let ?carrier = "interleave [0x41] (hiddenChars (textToBinary ?pin))"
  let ?st = "\<lparr>secretMessage = [], coverText = [0x41], encryptPin = ?pin,
         decryptPin = ?pin, inputText = ?carrier, resultText = [], error = NoMessage\<rparr>"
  have scan: "0x2060 \<in> set ?carrier \<and> 0xFEFF \<in> set ?carrier
      \<and> first_pos 0x2060 ?carrier < first_pos 0xFEFF ?carrier
      \<and> marker_bits (between_sentinels ?carrier) = textToBinary ?pin"
    by (rule scan_of_carrier [OF textToBinary_digits]) simp
  have "\<not> has_surrogate_pair ?pin"
    by (simp add: is_high_surrogate_def)
  then have decoded: "binaryToText (textToBinary ?pin) = ?pin"
    by (rule roundtrip_without_pairs)
  have none: "decrypt_binary demo_cryptojs (textToBinary ?pin) ?pin = None"
    by (simp add: decrypt_binary_def decoded demo_cryptojs_def)
  have bits: "textToBinary ?pin \<noteq> []"
    by (rule textToBinary_nonempty) simp
  have nonempty: "?carrier \<noteq> []"
    using scan by auto
  have "handleDecrypt demo_cryptojs ?st = ?st\<lparr>error := WrongKeyOrCorrupt, resultText := []\<rparr>"
    using handleDecrypt_scan [of ?st demo_cryptojs] scan bits nonempty pin_1234_accepted none
    by simp
  then have last: "error (handleDecrypt demo_cryptojs ?st) = WrongKeyOrCorrupt"
    by simp
  show ?thesis
    using last
    by (simp add: demo_cryptojs_def handleEncrypt_def seal_then_open_def handleDecrypt_def Let_def)
qed

text \<open>
  C10 (an empty plaintext is a failure). In both revisions, whenever the library recovers
  the empty string from the envelope that was extracted, the handler reports the wrong-key
  failure and clears the result; and whatever the input, the PIN and the library do, the
  handler never ends without error and with an empty result.
\<close>

theorem empty_plaintext_rejected:
  "(error (handleDecrypt cj st) = NoMessage \<longrightarrow> resultText (handleDecrypt cj st) \<noteq> [])
   \<and> (error_p0 (handleDecrypt_p0 cj st0) = NoMessage_p0 \<longrightarrow>
        resultText_p0 (handleDecrypt_p0 cj st0) \<noteq> [])
   \<and> (inputText st \<noteq> [] \<and> \<not> pin_rejected (decryptPin st)
        \<and> 0x2060 \<in> set (inputText st) \<and> 0xFEFF \<in> set (inputText st)
        \<and> first_pos 0x2060 (inputText st) < first_pos 0xFEFF (inputText st)
        \<and> marker_bits (between_sentinels (inputText st)) \<noteq> []
        \<and> AES_decrypt cj (binaryToText (marker_bits (between_sentinels (inputText st))))
              (decryptPin st) = Some w
        \<and> Utf8_stringify cj w = Some [] \<longrightarrow>
        handleDecrypt cj st = st\<lparr>error := WrongKeyOrCorrupt, resultText := []\<rparr>)
   \<and> (inputText_p0 st0 \<noteq> [] \<and> \<not> pin_rejected (decryptPin_p0 st0)
        \<and> match_markers_p0 (inputText_p0 st0) = Some matches
        \<and> AES_decrypt cj
              (binaryToText (join (map (\<lambda>char. if char = ZW_ZERO_p0 then [chr0] else [chr1]) matches)))
              (decryptPin_p0 st0) = Some w0
        \<and> Utf8_stringify cj w0 = Some [] \<longrightarrow>
        handleDecrypt_p0 cj st0 = st0\<lparr>error_p0 := WrongKey_p0, resultText_p0 := []\<rparr>)"
proof (intro conjI impI)
  show "resultText (handleDecrypt cj st) \<noteq> []" if "error (handleDecrypt cj st) = NoMessage"
    using that by (rule handleDecrypt_success_nonempty)
  show "resultText_p0 (handleDecrypt_p0 cj st0) \<noteq> []"
    if "error_p0 (handleDecrypt_p0 cj st0) = NoMessage_p0"
    using that by (rule handleDecrypt_p0_success_nonempty)
  show "handleDecrypt cj st = st\<lparr>error := WrongKeyOrCorrupt, resultText := []\<rparr>"
    if h: "inputText st \<noteq> [] \<and> \<not> pin_rejected (decryptPin st)
        \<and> 0x2060 \<in> set (inputText st) \<and> 0xFEFF \<in> set (inputText st)
        \<and> first_pos 0x2060 (inputText st) < first_pos 0xFEFF (inputText st)
        \<and> marker_bits (between_sentinels (inputText st)) \<noteq> []
        \<and> AES_decrypt cj (binaryToText (marker_bits (between_sentinels (inputText st))))
              (decryptPin st) = Some w
        \<and> Utf8_stringify cj w = Some []"
  proof -
    have "decrypt_binary cj (marker_bits (between_sentinels (inputText st))) (decryptPin st) = None"
      using h by (intro decrypt_binary_empty_text [of cj _ _ w]) auto
    then show ?thesis
      using h handleDecrypt_scan [of st cj] by simp
  qed
  show "handleDecrypt_p0 cj st0 = st0\<lparr>error_p0 := WrongKey_p0, resultText_p0 := []\<rparr>"
    if h: "inputText_p0 st0 \<noteq> [] \<and> \<not> pin_rejected (decryptPin_p0 st0)
        \<and> match_markers_p0 (inputText_p0 st0) = Some matches
        \<and> AES_decrypt cj
              (binaryToText (join (map (\<lambda>char. if char = ZW_ZERO_p0 then [chr0] else [chr1]) matches)))
              (decryptPin_p0 st0) = Some w0
        \<and> Utf8_stringify cj w0 = Some []"
  proof -
    have "decrypt_binary cj
        (join (map (\<lambda>char. if char = ZW_ZERO_p0 then [chr0] else [chr1]) matches))
        (decryptPin_p0 st0) = None"
      using h by (intro decrypt_binary_empty_text [of cj _ _ w0]) auto
    then show ?thesis
      using h by (simp add: handleDecrypt_p0_def Let_def)
  qed
qed

theorem empty_plaintext_rejected_witness:
  "AES_decrypt demo_cryptojs [0x31, 0x32, 0x33, 0x34] [0x31, 0x32, 0x33, 0x34] = Some []
   \<and> Utf8_stringify demo_cryptojs [] = Some []
   \<and> handleDecrypt demo_cryptojs
        \<lparr>secretMessage = [], coverText = [], encryptPin = [],
         decryptPin = [0x31, 0x32, 0x33, 0x34],
         inputText = interleave [0x41] (hiddenChars (textToBinary [0x31, 0x32, 0x33, 0x34])),
         resultText = [0x43], error = NoMessage\<rparr>
      = \<lparr>secretMessage = [], coverText = [], encryptPin = [],
         decryptPin = [0x31, 0x32, 0x33, 0x34],
         inputText = interleave [0x41] (hiddenChars (textToBinary [0x31, 0x32, 0x33, 0x34])),
         resultText = [], error = WrongKeyOrCorrupt\<rparr>
   \<and> handleDecrypt_p0 demo_cryptojs
        \<lparr>secretMessage_p0 = [], coverText_p0 = [], encryptPin_p0 = [],
         decryptPin_p0 = [0x31, 0x32, 0x33, 0x34],
         inputText_p0 = [0x41] @ hiddenChars_p0 (textToBinary [0x31, 0x32, 0x33, 0x34]),
         resultText_p0 = [0x43], error_p0 = NoMessage_p0\<rparr>
      = \<lparr>secretMessage_p0 = [], coverText_p0 = [], encryptPin_p0 = [],
         decryptPin_p0 = [0x31, 0x32, 0x33, 0x34],
         inputText_p0 = [0x41] @ hiddenChars_p0 (textToBinary [0x31, 0x32, 0x33, 0x34]),
         resultText_p0 = [], error_p0 = WrongKey_p0\<rparr>"
proof -
  let ?pin = "[0x31, 0x32, 0x33, 0x34] :: jsstring"
  let ?bits = "textToBinary ?pin"
  let ?carrier = "interleave [0x41] (hiddenChars ?bits)"
  let ?appended = "[0x41] @ hiddenChars_p0 ?bits"
  let ?matches = "map (\<lambda>x. if x = chr0 then ZW_ZERO_p0 else ZW_ONE_p0) ?bits"
  let ?st = "\<lparr>secretMessage = [], coverText = [], encryptPin = [], decryptPin = ?pin,
         inputText = ?carrier, resultText = [0x43], error = NoMessage\<rparr>"
  let ?old = "\<lparr>secretMessage_p0 = [], coverText_p0 = [], encryptPin_p0 = [],
         decryptPin_p0 = ?pin, inputText_p0 = ?appended, resultText_p0 = [0x43],
         error_p0 = NoMessage_p0\<rparr>"
  have scan: "0x2060 \<in> set ?carrier \<and> 0xFEFF \<in> set ?carrier
      \<and> first_pos 0x2060 ?carrier < first_pos 0xFEFF ?carrier
      \<and> marker_bits (between_sentinels ?carrier) = ?bits"
    by (rule scan_of_carrier [OF textToBinary_digits]) simp
  have "\<not> has_surrogate_pair ?pin"
    by (simp add: is_high_surrogate_def)
  then have decoded: "binaryToText ?bits = ?pin"
    by (rule roundtrip_without_pairs)
  have bits: "?bits \<noteq> []"
    by (rule textToBinary_nonempty) simp
  have opened: "AES_decrypt demo_cryptojs ?pin ?pin = Some []"
    and recovered: "Utf8_stringify demo_cryptojs [] = Some []"
    by (simp_all add: demo_cryptojs_def)
  have found: "match_markers_p0 ?appended = Some ?matches"
    by (rule match_markers_p0_carrier [OF textToBinary_digits bits]) simp
  have bits0: "join (map (\<lambda>char. if char = ZW_ZERO_p0 then [chr0] else [chr1]) ?matches) = ?bits"
    by (rule bits_of_matches_p0 [OF textToBinary_digits])
  have h: "inputText ?st \<noteq> [] \<and> \<not> pin_rejected (decryptPin ?st)
        \<and> 0x2060 \<in> set (inputText ?st) \<and> 0xFEFF \<in> set (inputText ?st)
        \<and> first_pos 0x2060 (inputText ?st) < first_pos 0xFEFF (inputText ?st)
        \<and> marker_bits (between_sentinels (inputText ?st)) \<noteq> []
        \<and> AES_decrypt demo_cryptojs
              (binaryToText (marker_bits (between_sentinels (inputText ?st)))) (decryptPin ?st)
            = Some []
        \<and> Utf8_stringify demo_cryptojs [] = Some []"
    using scan bits opened recovered pin_1234_accepted by (auto simp: decoded)
  have h0: "inputText_p0 ?old \<noteq> [] \<and> \<not> pin_rejected (decryptPin_p0 ?old)
        \<and> match_markers_p0 (inputText_p0 ?old) = Some ?matches
        \<and> AES_decrypt demo_cryptojs
              (binaryToText (join (map (\<lambda>char. if char = ZW_ZERO_p0 then [chr0] else [chr1]) ?matches)))
              (decryptPin_p0 ?old) = Some []
        \<and> Utf8_stringify demo_cryptojs [] = Some []"
  proof (intro conjI)
    show "inputText_p0 ?old \<noteq> []"
      by simp
    show "\<not> pin_rejected (decryptPin_p0 ?old)"
      using pin_1234_accepted by simp
    show "match_markers_p0 (inputText_p0 ?old) = Some ?matches"
      using found by simp
    show "AES_decrypt demo_cryptojs
        (binaryToText (join (map (\<lambda>char. if char = ZW_ZERO_p0 then [chr0] else [chr1]) ?matches)))
        (decryptPin_p0 ?old) = Some []"
      unfolding bits0 decoded using opened by simp
    show "Utf8_stringify demo_cryptojs [] = Some []"
      by (rule recovered)
  qed
  have "handleDecrypt demo_cryptojs ?st = ?st\<lparr>error := WrongKeyOrCorrupt, resultText := []\<rparr>"
    and "handleDecrypt_p0 demo_cryptojs ?old = ?old\<lparr>error_p0 := WrongKey_p0, resultText_p0 := []\<rparr>"
    using empty_plaintext_rejected [of demo_cryptojs ?st ?old "[]" ?matches "[]"] h h0
    by blast+
  then show ?thesis
    using opened recovered by simp
qed

section \<open>The claims about the splice and about determinism\<close>





text \<open>
  C9 (purity and determinism), as amended. The message \<open>handleEncrypt\<close> sets and, when
  it succeeds, the carrier it stores are determined by the secret message, the cover, the
  PIN and the envelope the library returns, whatever else the state holds. The message
  \<open>handleDecrypt\<close> sets is determined by the input text, the PIN and the library's
  answers, and so is the result it shows whenever it sets one (on success, \<open>NotFound\<close>
  and \<open>WrongKeyOrCorrupt\<close>). So sealing the same plaintext with the same PIN twice gives
  the same carrier whenever the library returns the same envelope both times.
\<close>

theorem handlers_determined_by_inputs:
  "(secretMessage s1 = secretMessage s2 \<and> coverText s1 = coverText s2
      \<and> encryptPin s1 = encryptPin s2
      \<and> AES_encrypt cj r1 (secretMessage s1) (encryptPin s1)
          = AES_encrypt cj r2 (secretMessage s1) (encryptPin s1) \<longrightarrow>
    error (handleEncrypt cj r1 s1) = error (handleEncrypt cj r2 s2)
    \<and> (error (handleEncrypt cj r1 s1) = NoMessage \<longrightarrow>
         resultText (handleEncrypt cj r1 s1) = resultText (handleEncrypt cj r2 s2)))
   \<and> (inputText d1 = inputText d2 \<and> decryptPin d1 = decryptPin d2 \<longrightarrow>
    error (handleDecrypt cj d1) = error (handleDecrypt cj d2)
    \<and> (error (handleDecrypt cj d1) = NoMessage \<or> error (handleDecrypt cj d1) = NotFound
         \<or> error (handleDecrypt cj d1) = WrongKeyOrCorrupt \<longrightarrow>
         resultText (handleDecrypt cj d1) = resultText (handleDecrypt cj d2)))"
proof (intro conjI impI)
  assume h: "secretMessage s1 = secretMessage s2 \<and> coverText s1 = coverText s2
      \<and> encryptPin s1 = encryptPin s2
      \<and> AES_encrypt cj r1 (secretMessage s1) (encryptPin s1)
          = AES_encrypt cj r2 (secretMessage s1) (encryptPin s1)"
  then have same: "secretMessage s1 = secretMessage s2" "coverText s1 = coverText s2"
      "encryptPin s1 = encryptPin s2"
    by simp_all
  have envelope: "AES_encrypt cj r1 (secretMessage s2) (encryptPin s2)
      = AES_encrypt cj r2 (secretMessage s2) (encryptPin s2)"
    using h by (simp add: same)
  show "error (handleEncrypt cj r1 s1) = error (handleEncrypt cj r2 s2)"
    by (simp add: handleEncrypt_def Let_def same envelope split: option.split)
  show "resultText (handleEncrypt cj r1 s1) = resultText (handleEncrypt cj r2 s2)"
    if "error (handleEncrypt cj r1 s1) = NoMessage"
    using that
    by (simp add: handleEncrypt_def Let_def same envelope split: option.splits if_splits)
next
  assume h: "inputText d1 = inputText d2 \<and> decryptPin d1 = decryptPin d2"
  show "error (handleDecrypt cj d1) = error (handleDecrypt cj d2)"
    using h by (simp add: handleDecrypt_def Let_def split: option.split)
  show "resultText (handleDecrypt cj d1) = resultText (handleDecrypt cj d2)"
    if "error (handleDecrypt cj d1) = NoMessage \<or> error (handleDecrypt cj d1) = NotFound
         \<or> error (handleDecrypt cj d1) = WrongKeyOrCorrupt"
    using h that by (auto simp: handleDecrypt_def Let_def split: option.splits if_splits)
qed

theorem handlers_determined_by_inputs_witness:
  "(let s1 = \<lparr>secretMessage = [0x68, 0x69], coverText = [0x74, 0x65, 0x73, 0x74],
               encryptPin = [0x30, 0x30, 0x30, 0x30], decryptPin = [], inputText = [],
               resultText = [], error = NoMessage\<rparr>;
        s2 = \<lparr>secretMessage = [0x68, 0x69], coverText = [0x74, 0x65, 0x73, 0x74],
               encryptPin = [0x30, 0x30, 0x30, 0x30], decryptPin = [0x31], inputText = [0x44],
               resultText = [0x43], error = WrongKeyOrCorrupt\<rparr>;
        d1 = \<lparr>secretMessage = [], coverText = [], encryptPin = [],
               decryptPin = [0x30, 0x30, 0x30, 0x30], inputText = [0x41],
               resultText = [0x43], error = NoMessage\<rparr>;
        d2 = \<lparr>secretMessage = [0x68], coverText = [0x74], encryptPin = [],
               decryptPin = [0x30, 0x30, 0x30, 0x30], inputText = [0x41],
               resultText = [0x68, 0x69], error = EmptyPayload\<rparr>
    in error (handleEncrypt demo_cryptojs () s1) = NoMessage
       \<and> error (handleEncrypt demo_cryptojs () s2) = NoMessage
       \<and> resultText (handleEncrypt demo_cryptojs () s1) = resultText (handleEncrypt demo_cryptojs () s2)
       \<and> error (handleDecrypt demo_cryptojs d1) = NotFound
       \<and> error (handleDecrypt demo_cryptojs d2) = NotFound
       \<and> resultText (handleDecrypt demo_cryptojs d1) = resultText (handleDecrypt demo_cryptojs d2))"
proof -
  let ?s1 = "\<lparr>secretMessage = [0x68, 0x69], coverText = [0x74, 0x65, 0x73, 0x74],
               encryptPin = [0x30, 0x30, 0x30, 0x30], decryptPin = [], inputText = [],
               resultText = [], error = NoMessage\<rparr>"
  let ?s2 = "\<lparr>secretMessage = [0x68, 0x69], coverText = [0x74, 0x65, 0x73, 0x74],
               encryptPin = [0x30, 0x30, 0x30, 0x30], decryptPin = [0x31], inputText = [0x44],
               resultText = [0x43], error = WrongKeyOrCorrupt\<rparr>"
  let ?d1 = "\<lparr>secretMessage = [], coverText = [], encryptPin = [],
               decryptPin = [0x30, 0x30, 0x30, 0x30], inputText = [0x41],
               resultText = [0x43], error = NoMessage\<rparr>"
  let ?d2 = "\<lparr>secretMessage = [0x68], coverText = [0x74], encryptPin = [],
               decryptPin = [0x30, 0x30, 0x30, 0x30], inputText = [0x41],
               resultText = [0x68, 0x69], error = EmptyPayload\<rparr>"
  have sealed: "error (handleEncrypt demo_cryptojs () ?s1) = NoMessage"
    using pin_0000_accepted by (simp add: handleEncrypt_def demo_cryptojs_def)
  have scanned: "error (handleDecrypt demo_cryptojs ?d1) = NotFound"
    using pin_0000_accepted by (simp add: handleDecrypt_def indexOf_def ZW_START_def)
  have hs: "secretMessage ?s1 = secretMessage ?s2 \<and> coverText ?s1 = coverText ?s2
      \<and> encryptPin ?s1 = encryptPin ?s2
      \<and> AES_encrypt demo_cryptojs () (secretMessage ?s1) (encryptPin ?s1)
          = AES_encrypt demo_cryptojs () (secretMessage ?s1) (encryptPin ?s1)"
    by simp
  have hd: "inputText ?d1 = inputText ?d2 \<and> decryptPin ?d1 = decryptPin ?d2"
    by simp
  have "error (handleEncrypt demo_cryptojs () ?s1) = error (handleEncrypt demo_cryptojs () ?s2)"
    and "resultText (handleEncrypt demo_cryptojs () ?s1) = resultText (handleEncrypt demo_cryptojs () ?s2)"
    and "error (handleDecrypt demo_cryptojs ?d1) = error (handleDecrypt demo_cryptojs ?d2)"
    and "resultText (handleDecrypt demo_cryptojs ?d1) = resultText (handleDecrypt demo_cryptojs ?d2)"
    using handlers_determined_by_inputs [of ?s1 ?s2 demo_cryptojs "()" "()" ?d1 ?d2]
      hs hd sealed scanned
    by blast+
  then show ?thesis
    unfolding Let_def using sealed scanned by (simp only: simp_thms)
qed

text \<open>
  The claim as stated asks that sealing the same plaintext with the same PIN twice yield
  the same envelope. The envelope is what the library returns, and the library call takes
  no salt from the code: with a library that draws one, the same state is sealed into two
  different carriers, each of which opens to the message.
\<close>

theorem sealing_twice_counterexample:
  "error (handleEncrypt salted_cryptojs 0x41
      \<lparr>secretMessage = [0x68, 0x69], coverText = [0x74, 0x65, 0x73, 0x74],
       encryptPin = [0x30, 0x30, 0x30, 0x30], decryptPin = [], inputText = [],
       resultText = [], error = NoMessage\<rparr>) = NoMessage
   \<and> error (handleEncrypt salted_cryptojs 0x42
      \<lparr>secretMessage = [0x68, 0x69], coverText = [0x74, 0x65, 0x73, 0x74],
       encryptPin = [0x30, 0x30, 0x30, 0x30], decryptPin = [], inputText = [],
       resultText = [], error = NoMessage\<rparr>) = NoMessage
   \<and> resultText (handleEncrypt salted_cryptojs 0x41
      \<lparr>secretMessage = [0x68, 0x69], coverText = [0x74, 0x65, 0x73, 0x74],
       encryptPin = [0x30, 0x30, 0x30, 0x30], decryptPin = [], inputText = [],
       resultText = [], error = NoMessage\<rparr>)
     \<noteq> resultText (handleEncrypt salted_cryptojs 0x42
      \<lparr>secretMessage = [0x68, 0x69], coverText = [0x74, 0x65, 0x73, 0x74],
       encryptPin = [0x30, 0x30, 0x30, 0x30], decryptPin = [], inputText = [],
       resultText = [], error = NoMessage\<rparr>)
   \<and> resultText (seal_then_open salted_cryptojs 0x41
      \<lparr>secretMessage = [0x68, 0x69], coverText = [0x74, 0x65, 0x73, 0x74],
       encryptPin = [0x30, 0x30, 0x30, 0x30], decryptPin = [], inputText = [],
       resultText = [], error = NoMessage\<rparr>) = [0x68, 0x69]
   \<and> resultText (seal_then_open salted_cryptojs 0x42
      \<lparr>secretMessage = [0x68, 0x69], coverText = [0x74, 0x65, 0x73, 0x74],
       encryptPin = [0x30, 0x30, 0x30, 0x30], decryptPin = [], inputText = [],
       resultText = [], error = NoMessage\<rparr>) = [0x68, 0x69]"
proof -
  let ?st = "\<lparr>secretMessage = [0x68, 0x69], coverText = [0x74, 0x65, 0x73, 0x74],
       encryptPin = [0x30, 0x30, 0x30, 0x30], decryptPin = [], inputText = [],
       resultText = [], error = NoMessage\<rparr>"
  let ?ea = "[0x41, 0x30, 0x30, 0x30, 0x30, 0x68, 0x69] :: jsstring"
  let ?eb = "[0x42, 0x30, 0x30, 0x30, 0x30, 0x68, 0x69] :: jsstring"
  let ?ca = "interleave (0x74 # [0x65, 0x73, 0x74]) (hiddenChars (textToBinary ?ea))"
  let ?cb = "interleave (0x74 # [0x65, 0x73, 0x74]) (hiddenChars (textToBinary ?eb))"
  have g: "secretMessage ?st \<noteq> []" "coverText ?st \<noteq> []" "hd (coverText ?st) \<noteq> 0xFEFF"
    "\<not> pin_rejected (encryptPin ?st)"
    using pin_0000_accepted by simp_all
  have ea: "AES_encrypt salted_cryptojs 0x41 (secretMessage ?st) (encryptPin ?st) = Some ?ea"
    and eb: "AES_encrypt salted_cryptojs 0x42 (secretMessage ?st) (encryptPin ?st) = Some ?eb"
    by (simp_all add: salted_cryptojs_def)
  have pa: "\<not> has_surrogate_pair ?ea" and pb: "\<not> has_surrogate_pair ?eb"
    by (simp_all add: is_high_surrogate_def)
  have da: "AES_decrypt salted_cryptojs ?ea (encryptPin ?st) = Some [0x68, 0x69]"
    and db: "AES_decrypt salted_cryptojs ?eb (encryptPin ?st) = Some [0x68, 0x69]"
    and ut: "Utf8_stringify salted_cryptojs [0x68, 0x69] = Some (secretMessage ?st)"
    by (simp_all add: salted_cryptojs_def)
  have sa: "handleEncrypt salted_cryptojs 0x41 ?st = ?st\<lparr>error := NoMessage, resultText := ?ca\<rparr>"
    using handleEncrypt_success [OF g(1,2,4) ea] by simp
  have sb: "handleEncrypt salted_cryptojs 0x42 ?st = ?st\<lparr>error := NoMessage, resultText := ?cb\<rparr>"
    using handleEncrypt_success [OF g(1,2,4) eb] by simp
  have ne: "(0x74 :: code_unit) \<noteq> 0xFEFF"
    by simp
  have ba: "marker_bits (between_sentinels ?ca) = textToBinary ?ea"
    using scan_of_carrier [where b = "textToBinary ?ea" and c = "0x74" and cs = "[0x65, 0x73, 0x74]",
        OF textToBinary_digits ne]
    by blast
  have bb: "marker_bits (between_sentinels ?cb) = textToBinary ?eb"
    using scan_of_carrier [where b = "textToBinary ?eb" and c = "0x74" and cs = "[0x65, 0x73, 0x74]",
        OF textToBinary_digits ne]
    by blast
  have differ: "?ca \<noteq> ?cb"
  proof
    assume same: "?ca = ?cb"
    have "textToBinary ?ea = marker_bits (between_sentinels ?ca)"
      by (simp only: ba)
    also have "\<dots> = marker_bits (between_sentinels ?cb)"
      by (simp only: same)
    also have "\<dots> = textToBinary ?eb"
      by (simp only: bb)
    finally have "binaryToText (textToBinary ?ea) = binaryToText (textToBinary ?eb)"
      by (rule arg_cong)
    then have "?ea = ?eb"
      by (simp only: roundtrip_without_pairs [OF pa] roundtrip_without_pairs [OF pb])
    then show False
      by simp
  qed
  have oa: "resultText (seal_then_open salted_cryptojs 0x41 ?st) = [0x68, 0x69]"
    using seal_then_open_success [OF g ea _ pa da ut] by simp
  have ob: "resultText (seal_then_open salted_cryptojs 0x42 ?st) = [0x68, 0x69]"
    using seal_then_open_success [OF g eb _ pb db ut] by simp
  show ?thesis
    using differ oa ob by (simp only: sa sb) simp
qed

section \<open>Further properties of the handlers\<close>

text \<open>
  X1 (a cover that starts with END-MARK). When the cover starts with U+FEFF, the byte
  order mark, \<open>handleEncrypt\<close> succeeds, but the first END-MARK of its output is the
  cover's own first character, before the START-MARK: \<open>handleDecrypt\<close> reports
  \<open>NotFound\<close> for it.
\<close>

theorem cover_starting_with_end_mark:
  assumes "secretMessage st \<noteq> []" and "coverText st = 0xFEFF # cs"
    and "\<not> pin_rejected (encryptPin st)"
    and "AES_encrypt cj r (secretMessage st) (encryptPin st) = Some e"
  shows "error (handleEncrypt cj r st) = NoMessage
    \<and> error (seal_then_open cj r st) = NotFound
    \<and> resultText (seal_then_open cj r st) = []"
proof -
  define carrier where "carrier = interleave (coverText st) (hiddenChars (textToBinary e))"
  define st1 where "st1 = handleEncrypt cj r st"
  define st2 where "st2 = st1\<lparr>inputText := resultText st1, decryptPin := encryptPin st\<rparr>"
  have cover: "coverText st \<noteq> []"
    using assms(2) by simp
  have st1: "st1 = st\<lparr>error := NoMessage, resultText := carrier\<rparr>"
    unfolding st1_def carrier_def by (rule handleEncrypt_success [OF assms(1) cover assms(3,4)])
  have carrier: "carrier = 0xFEFF # hiddenChars (textToBinary e) @ cs"
    by (simp add: carrier_def assms(2) interleave_def slice_from_def)
  have input: "inputText st2 = carrier" and dpin: "decryptPin st2 = encryptPin st"
    by (simp_all add: st2_def st1)
  have "first_pos 0xFEFF carrier = 0"
    by (simp add: first_pos_def carrier)
  then have "handleDecrypt cj st2 = st2\<lparr>error := NotFound, resultText := []\<rparr>"
    using handleDecrypt_scan [of st2 cj] assms(3) by (simp add: input dpin carrier)
  moreover have "seal_then_open cj r st = handleDecrypt cj st2"
    by (simp add: seal_then_open_def st1_def st2_def Let_def)
  ultimately show ?thesis
    by (simp add: st1 [unfolded st1_def])
qed

theorem cover_starting_with_end_mark_witness:
  "(let st = \<lparr>secretMessage = [0x68, 0x69], coverText = [0xFEFF, 0x74],
               encryptPin = [0x30, 0x30, 0x30, 0x30], decryptPin = [], inputText = [],
               resultText = [], error = NoMessage\<rparr>
    in AES_encrypt demo_cryptojs () (secretMessage st) (encryptPin st)
         = Some [0x30, 0x30, 0x30, 0x30, 0x68, 0x69]
       \<and> error (handleEncrypt demo_cryptojs () st) = NoMessage
       \<and> error (seal_then_open demo_cryptojs () st) = NotFound)"
proof -
  let ?st = "\<lparr>secretMessage = [0x68, 0x69], coverText = [0xFEFF, 0x74],
               encryptPin = [0x30, 0x30, 0x30, 0x30], decryptPin = [], inputText = [],
               resultText = [], error = NoMessage\<rparr>"
  have h1: "secretMessage ?st \<noteq> []" and h2: "coverText ?st = 0xFEFF # [0x74]"
    by simp_all
  have h3: "\<not> pin_rejected (encryptPin ?st)"
    using pin_0000_accepted by simp
  have h4: "AES_encrypt demo_cryptojs () (secretMessage ?st) (encryptPin ?st)
      = Some [0x30, 0x30, 0x30, 0x30, 0x68, 0x69]"
    by (simp add: demo_cryptojs_def)
  show ?thesis
    using cover_starting_with_end_mark [OF h1 h2 h3 h4] h4 by (simp add: Let_def)
qed

text \<open>
  X2 (no check of the recovered text). Once the bits are extracted, \<open>handleDecrypt\<close> shows
  whatever non-empty text the library recovers from them with the PIN typed in; it has no
  test of its own besides the one for the empty string.
\<close>

theorem recovered_text_shown:
  assumes "inputText st \<noteq> []" and "\<not> pin_rejected (decryptPin st)"
    and "0x2060 \<in> set (inputText st)" and "0xFEFF \<in> set (inputText st)"
    and "first_pos 0x2060 (inputText st) < first_pos 0xFEFF (inputText st)"
    and "marker_bits (between_sentinels (inputText st)) \<noteq> []"
    and "AES_decrypt cj (binaryToText (marker_bits (between_sentinels (inputText st))))
           (decryptPin st) = Some w"
    and "Utf8_stringify cj w = Some t" and "t \<noteq> []"
  shows "handleDecrypt cj st = st\<lparr>error := NoMessage, resultText := t\<rparr>"
proof -
  have "decrypt_binary cj (marker_bits (between_sentinels (inputText st))) (decryptPin st) = Some t"
    using assms(7-9) by (simp add: decrypt_binary_def)
  then show ?thesis
    using handleDecrypt_scan [OF assms(1,2), of cj] assms(3-6) by simp
qed

theorem recovered_text_shown_witness:
  "handleDecrypt demo_cryptojs
     \<lparr>secretMessage = [], coverText = [], encryptPin = [],
      decryptPin = [0x30, 0x30, 0x30, 0x30],
      inputText = interleave [0x74] (hiddenChars (textToBinary [0x30, 0x30, 0x30, 0x30, 0x68, 0x69])),
      resultText = [], error = WrongKeyOrCorrupt\<rparr>
   = \<lparr>secretMessage = [], coverText = [], encryptPin = [],
      decryptPin = [0x30, 0x30, 0x30, 0x30],
      inputText = interleave [0x74] (hiddenChars (textToBinary [0x30, 0x30, 0x30, 0x30, 0x68, 0x69])),
      resultText = [0x68, 0x69], error = NoMessage\<rparr>"
proof -
  let ?pin = "[0x30, 0x30, 0x30, 0x30] :: jsstring"
  let ?e = "[0x30, 0x30, 0x30, 0x30, 0x68, 0x69] :: jsstring"
  let ?carrier = "interleave [0x74] (hiddenChars (textToBinary ?e))"
  let ?st = "\<lparr>secretMessage = [], coverText = [], encryptPin = [], decryptPin = ?pin,
      inputText = ?carrier, resultText = [], error = WrongKeyOrCorrupt\<rparr>"
  have scan: "0x2060 \<in> set ?carrier \<and> 0xFEFF \<in> set ?carrier
      \<and> first_pos 0x2060 ?carrier < first_pos 0xFEFF ?carrier
      \<and> marker_bits (between_sentinels ?carrier) = textToBinary ?e"
    by (rule scan_of_carrier [OF textToBinary_digits]) simp
  have "\<not> has_surrogate_pair ?e"
    by (simp add: is_high_surrogate_def)
  then have decoded: "binaryToText (textToBinary ?e) = ?e"
    by (rule roundtrip_without_pairs)
  have bits: "textToBinary ?e \<noteq> []"
    by (rule textToBinary_nonempty) simp
  have h1: "inputText ?st \<noteq> []"
    using scan by auto
  have h2: "\<not> pin_rejected (decryptPin ?st)"
    using pin_0000_accepted by simp
  have h3: "0x2060 \<in> set (inputText ?st)" and h4: "0xFEFF \<in> set (inputText ?st)"
    and h5: "first_pos 0x2060 (inputText ?st) < first_pos 0xFEFF (inputText ?st)"
    using scan by simp_all
  have h6: "marker_bits (between_sentinels (inputText ?st)) \<noteq> []"
    using scan bits by simp
  have h7: "AES_decrypt demo_cryptojs
      (binaryToText (marker_bits (between_sentinels (inputText ?st)))) (decryptPin ?st)
      = Some [0x68, 0x69]"
    using scan by (simp add: decoded demo_cryptojs_def)
  have h8: "Utf8_stringify demo_cryptojs [0x68, 0x69] = Some [0x68, 0x69]"
    by (simp add: demo_cryptojs_def)
  have h9: "[0x68, 0x69] \<noteq> ([] :: jsstring)"
    by simp
  show ?thesis
    using recovered_text_shown [OF h1 h2 h3 h4 h5 h6 h7 h8 h9] by simp
qed

text \<open>
  X3 (round trip of the earlier revision). With the append strategy and the unmarked
  scan, revealing what was hidden shows the message, provided the cover holds neither
  U+200B nor U+200C and the library round-trips as in C1.
\<close>

theorem append_roundtrip:
  assumes "secretMessage_p0 st \<noteq> []" and "coverText_p0 st \<noteq> []"
    and "list_all (\<lambda>c. c \<notin> {0x200B, 0x200C}) (coverText_p0 st)"
    and "\<not> pin_rejected (encryptPin_p0 st)"
    and "AES_encrypt cj r (secretMessage_p0 st) (encryptPin_p0 st) = Some e"
    and "e \<noteq> []" and "\<not> has_surrogate_pair e"
    and "AES_decrypt cj e (encryptPin_p0 st) = Some w"
    and "Utf8_stringify cj w = Some (secretMessage_p0 st)"
  shows "handleDecrypt_p0 cj
      ((handleEncrypt_p0 cj r st)
        \<lparr>inputText_p0 := resultText_p0 (handleEncrypt_p0 cj r st),
         decryptPin_p0 := encryptPin_p0 st\<rparr>)
    = st\<lparr>decryptPin_p0 := encryptPin_p0 st,
         inputText_p0 := coverText_p0 st @ hiddenChars_p0 (textToBinary e),
         error_p0 := NoMessage_p0, resultText_p0 := secretMessage_p0 st\<rparr>"
proof -
  define carrier where "carrier = coverText_p0 st @ hiddenChars_p0 (textToBinary e)"
  define st1 where "st1 = handleEncrypt_p0 cj r st"
  define st2 where "st2 = st1\<lparr>inputText_p0 := resultText_p0 st1, decryptPin_p0 := encryptPin_p0 st\<rparr>"
  have st1: "st1 = st\<lparr>error_p0 := NoMessage_p0, resultText_p0 := carrier\<rparr>"
    using assms(1,2,4,5) by (simp add: st1_def carrier_def handleEncrypt_p0_def Let_def)
  have input: "inputText_p0 st2 = carrier" and dpin: "decryptPin_p0 st2 = encryptPin_p0 st"
    by (simp_all add: st2_def st1)
  have bits: "textToBinary e \<noteq> []"
    using assms(6) by (rule textToBinary_nonempty)
  have found: "match_markers_p0 carrier =
      Some (map (\<lambda>x. if x = chr0 then ZW_ZERO_p0 else ZW_ONE_p0) (textToBinary e))"
    unfolding carrier_def by (rule match_markers_p0_carrier [OF textToBinary_digits bits assms(3)])
  have binary: "join (map (\<lambda>char. if char = ZW_ZERO_p0 then [chr0] else [chr1])
      (map (\<lambda>x. if x = chr0 then ZW_ZERO_p0 else ZW_ONE_p0) (textToBinary e))) = textToBinary e"
    by (rule bits_of_matches_p0 [OF textToBinary_digits])
  have opened: "decrypt_binary cj (textToBinary e) (encryptPin_p0 st) = Some (secretMessage_p0 st)"
    using assms(1,8,9) by (simp add: decrypt_binary_def roundtrip_without_pairs [OF assms(7)])
  have nonempty: "carrier \<noteq> []"
    using assms(2) by (simp add: carrier_def)
  have "handleDecrypt_p0 cj st2 = st2\<lparr>error_p0 := NoMessage_p0, resultText_p0 := secretMessage_p0 st\<rparr>"
    unfolding handleDecrypt_p0_def input dpin found option.case Let_def binary opened
    using nonempty assms(4) by simp
  moreover have "handleEncrypt_p0 cj r st = st\<lparr>error_p0 := NoMessage_p0, resultText_p0 := carrier\<rparr>"
    using st1 by (simp only: st1_def)
  ultimately show ?thesis
    by (simp add: st2_def st1 carrier_def)
qed

theorem append_roundtrip_witness:
  "(let st = \<lparr>secretMessage_p0 = [0x68, 0x69], coverText_p0 = [0x74, 0x65, 0x73, 0x74],
               encryptPin_p0 = [0x30, 0x30, 0x30, 0x30], decryptPin_p0 = [], inputText_p0 = [],
               resultText_p0 = [], error_p0 = NoMessage_p0\<rparr>
    in resultText_p0 (handleDecrypt_p0 demo_cryptojs
         ((handleEncrypt_p0 demo_cryptojs () st)
           \<lparr>inputText_p0 := resultText_p0 (handleEncrypt_p0 demo_cryptojs () st),
            decryptPin_p0 := encryptPin_p0 st\<rparr>)) = [0x68, 0x69])"
proof -
  let ?st = "\<lparr>secretMessage_p0 = [0x68, 0x69], coverText_p0 = [0x74, 0x65, 0x73, 0x74],
               encryptPin_p0 = [0x30, 0x30, 0x30, 0x30], decryptPin_p0 = [], inputText_p0 = [],
               resultText_p0 = [], error_p0 = NoMessage_p0\<rparr>"
  let ?e = "[0x30, 0x30, 0x30, 0x30, 0x68, 0x69] :: jsstring"
  have h1: "secretMessage_p0 ?st \<noteq> []" and h2: "coverText_p0 ?st \<noteq> []"
    and h3: "list_all (\<lambda>c. c \<notin> {0x200B, 0x200C}) (coverText_p0 ?st)"
    by simp_all
  have h4: "\<not> pin_rejected (encryptPin_p0 ?st)"
    using pin_0000_accepted by simp
  have h5: "AES_encrypt demo_cryptojs () (secretMessage_p0 ?st) (encryptPin_p0 ?st) = Some ?e"
    by (simp add: demo_cryptojs_def)
  have h6: "?e \<noteq> []" and h7: "\<not> has_surrogate_pair ?e"
    by (simp_all add: is_high_surrogate_def)
  have h8: "AES_decrypt demo_cryptojs ?e (encryptPin_p0 ?st) = Some [0x68, 0x69]"
    by (simp add: demo_cryptojs_def)
  have h9: "Utf8_stringify demo_cryptojs [0x68, 0x69] = Some (secretMessage_p0 ?st)"
    by (simp add: demo_cryptojs_def)
  show ?thesis
    unfolding Let_def append_roundtrip [OF h1 h2 h3 h4 h5 h6 h7 h8 h9] by simp
qed

text \<open>
  X4 (a cover that starts with a surrogate pair). The splice is made after the first code
  unit, whatever it is: for a cover that starts with a character outside the Basic
  Multilingual Plane the marker run stands between its two surrogates.
\<close>

theorem splice_after_first_code_unit:
  assumes "secretMessage st \<noteq> []" and "coverText st = c # cs"
    and "\<not> pin_rejected (encryptPin st)"
    and "AES_encrypt cj r (secretMessage st) (encryptPin st) = Some e"
  shows "resultText (handleEncrypt cj r st) = c # hiddenChars (textToBinary e) @ cs"
proof -
  have "coverText st \<noteq> []"
    using assms(2) by simp
  then have "handleEncrypt cj r st =
      st\<lparr>error := NoMessage, resultText := interleave (coverText st) (hiddenChars (textToBinary e))\<rparr>"
    using assms by (intro handleEncrypt_success) simp_all
  then show ?thesis
    by (simp add: assms(2) interleave_def slice_from_def)
qed

theorem splice_after_first_code_unit_witness:
  "(let st = \<lparr>secretMessage = [0x68, 0x69], coverText = [0xD83D, 0xDE00, 0x74],
               encryptPin = [0x30, 0x30, 0x30, 0x30], decryptPin = [], inputText = [],
               resultText = [], error = NoMessage\<rparr>
    in Array_from (coverText st) = [[0xD83D, 0xDE00], [0x74]]
       \<and> resultText (handleEncrypt demo_cryptojs () st) =
           0xD83D # hiddenChars (textToBinary [0x30, 0x30, 0x30, 0x30, 0x68, 0x69]) @ [0xDE00, 0x74])"
proof -
  let ?st = "\<lparr>secretMessage = [0x68, 0x69], coverText = [0xD83D, 0xDE00, 0x74],
               encryptPin = [0x30, 0x30, 0x30, 0x30], decryptPin = [], inputText = [],
               resultText = [], error = NoMessage\<rparr>"
  have h1: "secretMessage ?st \<noteq> []" and h2: "coverText ?st = 0xD83D # [0xDE00, 0x74]"
    by simp_all
  have h3: "\<not> pin_rejected (encryptPin ?st)"
    using pin_0000_accepted by simp
  have h4: "AES_encrypt demo_cryptojs () (secretMessage ?st) (encryptPin ?st)
      = Some [0x30, 0x30, 0x30, 0x30, 0x68, 0x69]"
    by (simp add: demo_cryptojs_def)
  have "Array_from (coverText ?st) = [[0xD83D, 0xDE00], [0x74]]"
    by (simp add: is_high_surrogate_def is_low_surrogate_def)
  then show ?thesis
    using splice_after_first_code_unit [OF h1 h2 h3 h4] by (simp add: Let_def)
qed

end
